theory Spec2Isabelle
  imports Main
begin

section \<open>Strings\<close>

text \<open>
  JavaScript strings are modelled as \<^typ>\<open>string\<close> (lists of 8-bit characters), so the
  line terminators that the regular expression atom \<open>.\<close> refuses are line feed and
  carriage return (U+2028 and U+2029 lie outside the character type).
\<close>

definition LF :: char where
  "LF = CHR 0x0A"

definition CR :: char where
  "CR = CHR 0x0D"

definition is_digit :: "char \<Rightarrow> bool" where
  "is_digit c = (c \<in> set ''0123456789'')"

definition is_upper :: "char \<Rightarrow> bool" where
  "is_upper c = (c \<in> set ''ABCDEFGHIJKLMNOPQRSTUVWXYZ'')"

text \<open>\<open>s.startsWith(p)\<close>, the anchored literal prefix of a regular expression.\<close>

fun starts_with :: "string \<Rightarrow> string \<Rightarrow> bool" where
  "starts_with [] s = True"
| "starts_with (p # ps) [] = False"
| "starts_with (p # ps) (c # cs) = (p = c \<and> starts_with ps cs)"

text \<open>\<open>content.split('\n')\<close> and \<open>output.join('\n')\<close>.\<close>

fun split_lines :: "string \<Rightarrow> string list" where
  "split_lines [] = [[]]"
| "split_lines (c # cs) =
     (if c = LF then [] # split_lines cs
      else (case split_lines cs of
              [] \<Rightarrow> [[c]]
            | l # ls \<Rightarrow> (c # l) # ls))"

fun join_lines :: "string list \<Rightarrow> string" where
  "join_lines [] = []"
| "join_lines [l] = l"
| "join_lines (l # m # ls) = l @ LF # join_lines (m # ls)"

text \<open>\<open>s.replace(pat, rep)\<close> with a string pattern: the first occurrence only.\<close>

fun replace_first :: "string \<Rightarrow> string \<Rightarrow> string \<Rightarrow> string" where
  "replace_first pat rep [] = (if pat = [] then rep else [])"
| "replace_first pat rep (c # cs) =
     (if starts_with pat (c # cs) then rep @ drop (length pat) (c # cs)
      else c # replace_first pat rep cs)"

text \<open>\<open>s.replace(/\//g, '-')\<close>: every slash becomes a hyphen.\<close>

definition slashes_to_hyphens :: "string \<Rightarrow> string" where
  "slashes_to_hyphens s = map (\<lambda>c. if c = CHR ''/'' then CHR ''-'' else c) s"

text \<open>Decimal numerals: \<open>parseInt\<close> on a run of digits, and \<open>String(n)\<close> on an integer.\<close>

definition digit_val :: "char \<Rightarrow> nat" where
  "digit_val c = of_char c - 48"

definition parseInt :: "string \<Rightarrow> nat" where
  "parseInt ds = foldl (\<lambda>n c. 10 * n + digit_val c) 0 ds"

definition digit_char :: "nat \<Rightarrow> char" where
  "digit_char k = char_of (48 + k)"

function show_nat :: "nat \<Rightarrow> string" where
  "show_nat n = (if n < 10 then [digit_char n] else show_nat (n div 10) @ [digit_char (n mod 10)])"
  by pat_completeness auto
termination
  by (relation "measure id") auto

declare show_nat.simps [simp del]

definition show_int :: "int \<Rightarrow> string" where
  "show_int i = (if i < 0 then CHR ''-'' # show_nat (nat (- i)) else show_nat (nat i))"

text \<open>\<open>s.padStart(n, '0')\<close>.\<close>

definition padStart0 :: "nat \<Rightarrow> string \<Rightarrow> string" where
  "padStart0 n s = replicate (n - length s) (CHR ''0'') @ s"

section \<open>Dates: the time values of ECMAScript\<close>

text \<open>
  A valid \<open>Date\<close> is its time value, an integer count of milliseconds since the epoch;
  \<open>NaN\<close> (an invalid date) is \<open>None\<close>. The functions below are those of the ECMAScript
  specification (Day, DayFromYear, YearFromTime, MonthFromTime, DateFromTime, WeekDay,
  MakeDay, TimeClip). The local time zone is a fixed offset \<open>tza\<close> in milliseconds,
  a parameter of everything that reads local fields.
\<close>

definition msPerDay :: int where
  "msPerDay = 86400000"

definition Day :: "int \<Rightarrow> int" where
  "Day t = t div msPerDay"

definition TimeWithinDay :: "int \<Rightarrow> int" where
  "TimeWithinDay t = t mod msPerDay"

definition DayFromYear :: "int \<Rightarrow> int" where
  "DayFromYear y =
     365 * (y - 1970) + (y - 1969) div 4 - (y - 1901) div 100 + (y - 1601) div 400"

definition InLeapYear :: "int \<Rightarrow> int" where
  "InLeapYear y =
     (if y mod 4 \<noteq> 0 then 0 else if y mod 100 \<noteq> 0 then 1 else if y mod 400 \<noteq> 0 then 0 else 1)"

text \<open>
  The year of a day number: ECMAScript asks for the largest \<open>y\<close> with
  \<open>DayFromYear y \<le> n\<close>; the mean year length gives an estimate that is off by at most one.
\<close>

definition YearFromDay :: "int \<Rightarrow> int" where
  "YearFromDay n =
     (let y = 1970 + (n * 400) div 146097 in
      if DayFromYear (y + 1) \<le> n then y + 1
      else if n < DayFromYear y then y - 1
      else y)"

definition DayWithinYear :: "int \<Rightarrow> int" where
  "DayWithinYear n = n - DayFromYear (YearFromDay n)"

text \<open>The first day of month \<open>m\<close> (0 to 11) within a year, \<open>l\<close> being 1 in a leap year.\<close>

definition MonthStart :: "int \<Rightarrow> int \<Rightarrow> int" where
  "MonthStart l m =
     (if m = 0 then 0 else if m = 1 then 31 else if m = 2 then 59 + l
      else if m = 3 then 90 + l else if m = 4 then 120 + l else if m = 5 then 151 + l
      else if m = 6 then 181 + l else if m = 7 then 212 + l else if m = 8 then 243 + l
      else if m = 9 then 273 + l else if m = 10 then 304 + l else 334 + l)"

definition MonthFromDay :: "int \<Rightarrow> int" where
  "MonthFromDay n =
     (let d = DayWithinYear n; l = InLeapYear (YearFromDay n) in
      if d < 31 then 0 else if d < 59 + l then 1 else if d < 90 + l then 2
      else if d < 120 + l then 3 else if d < 151 + l then 4 else if d < 181 + l then 5
      else if d < 212 + l then 6 else if d < 243 + l then 7 else if d < 273 + l then 8
      else if d < 304 + l then 9 else if d < 334 + l then 10 else 11)"

definition DateFromDay :: "int \<Rightarrow> int" where
  "DateFromDay n =
     DayWithinYear n - MonthStart (InLeapYear (YearFromDay n)) (MonthFromDay n) + 1"

definition YearFromTime :: "int \<Rightarrow> int" where
  "YearFromTime t = YearFromDay (Day t)"

definition MonthFromTime :: "int \<Rightarrow> int" where
  "MonthFromTime t = MonthFromDay (Day t)"

definition DateFromTime :: "int \<Rightarrow> int" where
  "DateFromTime t = DateFromDay (Day t)"

definition WeekDay :: "int \<Rightarrow> int" where
  "WeekDay t = (Day t + 4) mod 7"

text \<open>\<open>MakeDay(year, month, date)\<close>: months outside 0 to 11 carry into the year.\<close>

definition MakeDay :: "int \<Rightarrow> int \<Rightarrow> int \<Rightarrow> int" where
  "MakeDay y m dt =
     (let ym = y + m div 12; mn = m mod 12 in
      DayFromYear ym + MonthStart (InLeapYear ym) mn + dt - 1)"

definition TimeClip :: "int \<Rightarrow> int option" where
  "TimeClip t = (if \<bar>t\<bar> \<le> 8640000000000000 then Some t else None)"

text \<open>\<open>Date.UTC(y, m, d)\<close>: a year from 0 to 99 means 1900 + y (MakeFullYear).\<close>

definition MakeFullYear :: "int \<Rightarrow> int" where
  "MakeFullYear y = (if 0 \<le> y \<and> y \<le> 99 then 1900 + y else y)"

definition Date_UTC :: "int \<Rightarrow> int \<Rightarrow> int \<Rightarrow> int option" where
  "Date_UTC y m d = TimeClip (MakeDay (MakeFullYear y) m d * msPerDay)"

text \<open>The local getters and setters, and the UTC ones.\<close>

definition LocalTime :: "int \<Rightarrow> int \<Rightarrow> int" where
  "LocalTime tza t = t + tza"

definition getFullYear :: "int \<Rightarrow> int \<Rightarrow> int" where
  "getFullYear tza t = YearFromTime (LocalTime tza t)"

definition getMonth :: "int \<Rightarrow> int \<Rightarrow> int" where
  "getMonth tza t = MonthFromTime (LocalTime tza t)"

definition getDate :: "int \<Rightarrow> int \<Rightarrow> int" where
  "getDate tza t = DateFromTime (LocalTime tza t)"

definition getDay :: "int \<Rightarrow> int \<Rightarrow> int" where
  "getDay tza t = WeekDay (LocalTime tza t)"

definition setDate :: "int \<Rightarrow> int \<Rightarrow> int \<Rightarrow> int option" where
  "setDate tza t dt =
     (let lt = LocalTime tza t;
          newDate = MakeDay (YearFromTime lt) (MonthFromTime lt) dt * msPerDay + TimeWithinDay lt
      in TimeClip (newDate - tza))"

definition setUTCDate :: "int \<Rightarrow> int \<Rightarrow> int option" where
  "setUTCDate t dt =
     TimeClip (MakeDay (YearFromTime t) (MonthFromTime t) dt * msPerDay + TimeWithinDay t)"

text \<open>
  \<open>toISOString().slice(0, 10)\<close>: the year has four digits from 0 to 9999 and a sign and
  six digits otherwise, so the slice is \<open>YYYY-MM-DD\<close> only in the first case.
\<close>

definition iso_year :: "int \<Rightarrow> string" where
  "iso_year y =
     (if 0 \<le> y \<and> y \<le> 9999 then padStart0 4 (show_nat (nat y))
      else (if y < 0 then CHR ''-'' else CHR ''+'') # padStart0 6 (show_nat (nat \<bar>y\<bar>)))"

definition toISOString_date :: "int \<Rightarrow> string" where
  "toISOString_date t =
     take 10 (iso_year (YearFromTime t) @ ''-'' @ padStart0 2 (show_int (MonthFromTime t + 1))
              @ ''-'' @ padStart0 2 (show_int (DateFromTime t)))"

section \<open>The week calculator (get\_week\_info.cjs)\<close>

datatype error =
    MissingFields
  | InvalidDate string
  | RangeError
  | TypeError
  | IOFailure
  | FormatterExit

text \<open>\<open>Math.ceil(n / 7)\<close> on an integer \<open>n\<close>.\<close>

definition ceil_div7 :: "int \<Rightarrow> int" where
  "ceil_div7 n = - ((- n) div 7)"

text \<open>
  \<open>getWeekNumber(date)\<close>. The copy \<open>d\<close> and \<open>yearStart\<close> are both UTC midnights, so
  \<open>(d - yearStart) / 86400000\<close> is an exact integer division.
\<close>

definition getWeekNumber :: "int \<Rightarrow> int \<Rightarrow> int option" where
  "getWeekNumber tza date =
     (case Date_UTC (getFullYear tza date) (getMonth tza date) (getDate tza date) of
        None \<Rightarrow> None
      | Some d \<Rightarrow>
          (let dayNum = (if WeekDay d = 0 then 7 else WeekDay d) in
           case setUTCDate d (DateFromTime d + 4 - dayNum) of
             None \<Rightarrow> None
           | Some d' \<Rightarrow>
               (case Date_UTC (YearFromTime d') 0 1 of
                  None \<Rightarrow> None
                | Some yearStart \<Rightarrow> Some (ceil_div7 ((d' - yearStart) div msPerDay + 1)))))"

text \<open>
  \<open>getWeekRange(date)\<close>: the Monday is found with the local getters and setters, the two
  strings are cut from \<open>toISOString()\<close>, which prints UTC and throws on an invalid date.
\<close>

definition getWeekRange :: "int \<Rightarrow> int \<Rightarrow> error + (string \<times> string)" where
  "getWeekRange tza date =
     (let day = getDay tza date;
          diff = getDate tza date - day + (if day = 0 then - 6 else 1) in
      case setDate tza date diff of
        None \<Rightarrow> Inl RangeError
      | Some monday \<Rightarrow>
          (case setDate tza monday (getDate tza monday + 6) of
             None \<Rightarrow> Inl RangeError
           | Some sunday \<Rightarrow> Inr (toISOString_date monday, toISOString_date sunday)))"

text \<open>
  \<open>new Date(string)\<close>. ECMAScript fixes the value of the date-only form \<open>YYYY-MM-DD\<close>
  (UTC midnight of that day); what any other string parses to is left to the engine and
  is the parameter \<open>other\<close>.
\<close>

definition DaysInMonth :: "int \<Rightarrow> int \<Rightarrow> int" where
  "DaysInMonth y m =
     (if m = 11 then 31 else MonthStart (InLeapYear y) (m + 1) - MonthStart (InLeapYear y) m)"

definition parse_iso_date :: "string \<Rightarrow> int option" where
  "parse_iso_date s =
     (case s of
        [y1, y2, y3, y4, h1, m1, m2, h2, d1, d2] \<Rightarrow>
          (if list_all is_digit [y1, y2, y3, y4, m1, m2, d1, d2] \<and> h1 = CHR ''-'' \<and> h2 = CHR ''-''
           then (let y = int (parseInt [y1, y2, y3, y4]);
                     m = int (parseInt [m1, m2]);
                     d = int (parseInt [d1, d2]) in
                 if 1 \<le> m \<and> m \<le> 12 \<and> 1 \<le> d \<and> d \<le> DaysInMonth y (m - 1)
                 then Some (MakeDay y (m - 1) d * msPerDay) else None)
           else None)
      | _ \<Rightarrow> None)"

definition Date_parse :: "(string \<Rightarrow> int option) \<Rightarrow> string \<Rightarrow> int option" where
  "Date_parse other s = (case parse_iso_date s of Some t \<Rightarrow> Some t | None \<Rightarrow> other s)"

text \<open>What a run reads from its surroundings.\<close>

record env =
  tza :: int
  now :: int
  parse_other :: "string \<Rightarrow> int option"
  worklogsPath :: "string list"
  prettier :: "string \<Rightarrow> string option"

text \<open>
  The result of \<open>getWeekInfo\<close>. The two fields printed by \<open>toLocaleDateString\<close>
  (\<open>dailyHeader\<close>, \<open>monthHeader\<close>) are read by no caller in the repository and are left out.
\<close>

record weekInfo =
  wi_date :: string
  wi_year :: int
  wi_month :: string
  wi_weekNumber :: "int option"
  wi_weekHeader :: string
  wi_weekRange :: "string \<times> string"

definition show_number :: "int option \<Rightarrow> string" where
  "show_number v = (case v of None \<Rightarrow> ''NaN'' | Some i \<Rightarrow> show_int i)"

definition getWeekInfo :: "env \<Rightarrow> string option \<Rightarrow> error + weekInfo" where
  "getWeekInfo e dateStr =
     (let date = (case dateStr of
                    None \<Rightarrow> Some (now e)
                  | Some s \<Rightarrow> if s = [] then Some (now e) else Date_parse (parse_other e) s) in
      case date of
        None \<Rightarrow> Inl (InvalidDate (case dateStr of None \<Rightarrow> [] | Some s \<Rightarrow> s))
      | Some t \<Rightarrow>
          (let weekNum = getWeekNumber (tza e) t in
           case getWeekRange (tza e) t of
             Inl err \<Rightarrow> Inl err
           | Inr weekRange \<Rightarrow>
               (let year = getFullYear (tza e) t;
                    month = padStart0 2 (show_int (getMonth (tza e) t + 1)) in
                Inr \<lparr> wi_date = toISOString_date t,
                      wi_year = year,
                      wi_month = show_int year @ ''-'' @ month,
                      wi_weekNumber = weekNum,
                      wi_weekHeader = ''Week '' @ show_number weekNum,
                      wi_weekRange = weekRange \<rparr>)))"

section \<open>The worklog document (log\_work.cjs)\<close>

subsection \<open>Line patterns\<close>

text \<open>\<open>[A-Z]+-\d+\<close> at the start of a string: the text matched and the rest.\<close>

definition match_id :: "string \<Rightarrow> (string \<times> string) option" where
  "match_id s =
     (let u = takeWhile is_upper s in
      if u = [] then None
      else (case dropWhile is_upper s of
              [] \<Rightarrow> None
            | c # r \<Rightarrow>
                (let g = takeWhile is_digit r in
                 if c \<noteq> CHR ''-'' \<or> g = [] then None
                 else Some (u @ ''-'' @ g, dropWhile is_digit r))))"

text \<open>\<open>/^## Week \d+/\<close>\<close>

definition is_week_header :: "string \<Rightarrow> bool" where
  "is_week_header l =
     (starts_with ''## Week '' l \<and> (case drop 8 l of [] \<Rightarrow> False | c # _ \<Rightarrow> is_digit c))"

text \<open>\<open>line.match(/\d+/)[0]\<close>: the first run of digits of the line.\<close>

definition first_digits :: "string \<Rightarrow> string" where
  "first_digits l = takeWhile is_digit (dropWhile (\<lambda>c. \<not> is_digit c) l)"

text \<open>\<open>/^### \d{4}\/\d{2}\/\d{2}/\<close>\<close>

definition is_day_header :: "string \<Rightarrow> bool" where
  "is_day_header l =
     (starts_with ''### '' l \<and>
      (case drop 4 l of
         y1 # y2 # y3 # y4 # s1 # m1 # m2 # s2 # d1 # d2 # _ \<Rightarrow>
           list_all is_digit [y1, y2, y3, y4, m1, m2, d1, d2] \<and> s1 = CHR ''/'' \<and> s2 = CHR ''/''
       | _ \<Rightarrow> False))"

text \<open>\<open>/^- [A-Z]+-\d+:/\<close>\<close>

definition is_task_line :: "string \<Rightarrow> bool" where
  "is_task_line l =
     (starts_with ''- '' l \<and>
      (case match_id (drop 2 l) of
         Some (i, c # _) \<Rightarrow> c = CHR '':''
       | _ \<Rightarrow> False))"

text \<open>
  \<open>line.match(/^- ([A-Z]+-\d+): (.+)$/)\<close>: the two groups, or \<open>None\<close> for \<open>null\<close>.
  The atom \<open>.\<close> matches no line terminator and \<open>$\<close> is the end of the string.
\<close>

definition match_task :: "string \<Rightarrow> (string \<times> string) option" where
  "match_task l =
     (if starts_with ''- '' l
      then (case match_id (drop 2 l) of
              Some (i, c1 # c2 # s) \<Rightarrow>
                if c1 = CHR '':'' \<and> c2 = CHR '' '' \<and> s \<noteq> [] \<and> list_all (\<lambda>c. c \<noteq> LF \<and> c \<noteq> CR) s
                then Some (i, s) else None
            | _ \<Rightarrow> None)
      else None)"

subsection \<open>Data model\<close>

record task =
  trackingId :: string
  summary :: string
  t_content :: "string list"

record day =
  d_header :: string
  d_date :: string
  d_content :: "string list"
  tasks :: "task list"

text \<open>
  A week number is a JavaScript number: \<open>None\<close> is \<open>NaN\<close>. Numbers read by \<open>parseInt\<close>
  are kept exact (a double is exact below \<open>2^53\<close>).
\<close>

record week =
  w_header :: string
  weekNumber :: "int option"
  w_content :: "string list"
  days :: "day list"

datatype sect = Header "string list" | Week week

subsection \<open>parseWorklog\<close>

record pstate =
  sections :: "sect list"
  currentWeek :: "week option"
  currentDay :: "day option"
  currentTask :: "task option"
  buffer :: "string list"

definition init_pstate :: pstate where
  "init_pstate =
     \<lparr> sections = [], currentWeek = None, currentDay = None, currentTask = None, buffer = [] \<rparr>"

definition flushBuffer :: "pstate \<Rightarrow> pstate" where
  "flushBuffer st =
     (if buffer st = [] then st
      else (case currentTask st of
              Some t \<Rightarrow>
                st \<lparr> currentTask := Some (t \<lparr> t_content := t_content t @ buffer st \<rparr>), buffer := [] \<rparr>
            | None \<Rightarrow>
                (case currentDay st of
                   Some d \<Rightarrow>
                     st \<lparr> currentDay := Some (d \<lparr> d_content := d_content d @ buffer st \<rparr>),
                          buffer := [] \<rparr>
                 | None \<Rightarrow>
                     (case currentWeek st of
                        Some w \<Rightarrow>
                          st \<lparr> currentWeek := Some (w \<lparr> w_content := w_content w @ buffer st \<rparr>),
                               buffer := [] \<rparr>
                      | None \<Rightarrow>
                          st \<lparr> sections := sections st @ [Header (buffer st)], buffer := [] \<rparr>))))"

text \<open>
  One turn of the loop over the lines. Dereferencing \<open>null\<close> (\<open>currentWeek.days\<close> with no
  week open, \<open>match[1]\<close> when the second task pattern fails) throws a \<open>TypeError\<close>.
\<close>

definition parse_line :: "pstate \<Rightarrow> string \<Rightarrow> error + pstate" where
  "parse_line st line =
     (if is_week_header line then
        (let st1 = flushBuffer st in
         Inr (st1 \<lparr> sections := (case currentWeek st1 of
                                    Some w \<Rightarrow> sections st1 @ [Week w]
                                  | None \<Rightarrow> sections st1),
                    currentWeek := Some \<lparr> w_header = line,
                                          weekNumber = Some (int (parseInt (first_digits line))),
                                          w_content = [], days = [] \<rparr>,
                    currentDay := None,
                    currentTask := None \<rparr>))
      else if is_day_header line then
        (let st1 = flushBuffer st;
             nd = \<lparr> d_header = line, d_date = replace_first ''### '' [] line,
                    d_content = [], tasks = [] \<rparr> in
         case currentDay st1 of
           None \<Rightarrow> Inr (st1 \<lparr> currentDay := Some nd, currentTask := None \<rparr>)
         | Some d \<Rightarrow>
             (case currentWeek st1 of
                None \<Rightarrow> Inl TypeError
              | Some w \<Rightarrow>
                  Inr (st1 \<lparr> currentWeek := Some (w \<lparr> days := days w @ [d] \<rparr>),
                             currentDay := Some nd,
                             currentTask := None \<rparr>)))
      else if currentDay st \<noteq> None \<and> is_task_line line then
        (let st1 = flushBuffer st;
             st2 = (case currentTask st1 of
                      None \<Rightarrow> st1
                    | Some t \<Rightarrow>
                        st1 \<lparr> currentDay := map_option (\<lambda>d. d \<lparr> tasks := tasks d @ [t] \<rparr>)
                                               (currentDay st1) \<rparr>) in
         case match_task line of
           None \<Rightarrow> Inl TypeError
         | Some (i, s) \<Rightarrow>
             Inr (st2 \<lparr> currentTask := Some \<lparr> trackingId = i, summary = s, t_content = [] \<rparr> \<rparr>))
      else Inr (st \<lparr> buffer := buffer st @ [line] \<rparr>))"

fun parse_lines :: "pstate \<Rightarrow> string list \<Rightarrow> error + pstate" where
  "parse_lines st [] = Inr st"
| "parse_lines st (l # ls) =
     (case parse_line st l of Inl e \<Rightarrow> Inl e | Inr st' \<Rightarrow> parse_lines st' ls)"

text \<open>After the loop: flush, then close the open task, day and week.\<close>

definition finish :: "pstate \<Rightarrow> error + sect list" where
  "finish st =
     (let st1 = flushBuffer st in
      case (case currentTask st1 of
              None \<Rightarrow> Inr (currentDay st1)
            | Some t \<Rightarrow>
                (case currentDay st1 of
                   None \<Rightarrow> Inl TypeError
                 | Some d \<Rightarrow> Inr (Some (d \<lparr> tasks := tasks d @ [t] \<rparr>)))) of
        Inl e \<Rightarrow> Inl e
      | Inr cd \<Rightarrow>
          (case (case cd of
                   None \<Rightarrow> Inr (currentWeek st1)
                 | Some d \<Rightarrow>
                     (case currentWeek st1 of
                        None \<Rightarrow> Inl TypeError
                      | Some w \<Rightarrow> Inr (Some (w \<lparr> days := days w @ [d] \<rparr>)))) of
             Inl e \<Rightarrow> Inl e
           | Inr cw \<Rightarrow>
               Inr (case cw of None \<Rightarrow> sections st1 | Some w \<Rightarrow> sections st1 @ [Week w])))"

definition parseWorklog :: "string \<Rightarrow> error + sect list" where
  "parseWorklog content =
     (case parse_lines init_pstate (split_lines content) of
        Inl e \<Rightarrow> Inl e
      | Inr st \<Rightarrow> finish st)"

subsection \<open>Array helpers\<close>

text \<open>\<open>Array.prototype.find\<close>, as the index of the first element that satisfies the test.\<close>

fun find_index :: "('a \<Rightarrow> bool) \<Rightarrow> 'a list \<Rightarrow> nat option" where
  "find_index P [] = None"
| "find_index P (x # xs) =
     (if P x then Some 0 else map_option Suc (find_index P xs))"

text \<open>Where an object sits in an array it was pushed to: the first element equal to it.\<close>

definition index_of :: "'a \<Rightarrow> 'a list \<Rightarrow> nat" where
  "index_of x xs = length (takeWhile (\<lambda>y. y \<noteq> x) xs)"

text \<open>
  \<open>Array.prototype.sort(comparefn)\<close>, which ECMAScript requires to be stable, as the
  insertion sort of arrays: each element in turn moves left past the elements that
  compare greater than it. A comparator result of \<open>NaN\<close> (\<open>None\<close>) counts as 0. For a
  consistent comparator every stable sort returns this list; for the others the engine
  is free, and the model fixes this one.
\<close>

definition cmp_gt :: "('a \<Rightarrow> 'a \<Rightarrow> int option) \<Rightarrow> 'a \<Rightarrow> 'a \<Rightarrow> bool" where
  "cmp_gt cmp a b = (case cmp a b of None \<Rightarrow> False | Some v \<Rightarrow> 0 < v)"

text \<open>Insertion into the sorted part, held right to left.\<close>

fun insert_rev :: "('a \<Rightarrow> 'a \<Rightarrow> int option) \<Rightarrow> 'a \<Rightarrow> 'a list \<Rightarrow> 'a list" where
  "insert_rev cmp x [] = [x]"
| "insert_rev cmp x (y # ys) =
     (if cmp_gt cmp y x then y # insert_rev cmp x ys else x # y # ys)"

definition js_sort :: "('a \<Rightarrow> 'a \<Rightarrow> int option) \<Rightarrow> 'a list \<Rightarrow> 'a list" where
  "js_sort cmp xs = rev (foldl (\<lambda>acc x. insert_rev cmp x acc) [] xs)"

subsection \<open>Dates of day headers\<close>

text \<open>\<open>formatDateHeader(dateStr)\<close>; an invalid date prints its fields as \<open>NaN\<close>.\<close>

definition formatDateHeader :: "env \<Rightarrow> string \<Rightarrow> string" where
  "formatDateHeader e dateStr =
     (case Date_parse (parse_other e) dateStr of
        None \<Rightarrow> ''NaN/NaN/NaN''
      | Some t \<Rightarrow>
          show_int (getFullYear (tza e) t) @ ''/''
          @ padStart0 2 (show_int (getMonth (tza e) t + 1)) @ ''/''
          @ padStart0 2 (show_int (getDate (tza e) t)))"

text \<open>\<open>compareDates(dateStr1, dateStr2)\<close>: \<open>d2 - d1\<close>, which is \<open>NaN\<close> when a date is invalid.\<close>

definition compareDates :: "env \<Rightarrow> string \<Rightarrow> string \<Rightarrow> int option" where
  "compareDates e dateStr1 dateStr2 =
     (case Date_parse (parse_other e) (slashes_to_hyphens dateStr1) of
        None \<Rightarrow> None
      | Some d1 \<Rightarrow>
          (case Date_parse (parse_other e) (slashes_to_hyphens dateStr2) of
             None \<Rightarrow> None
           | Some d2 \<Rightarrow> Some (d2 - d1)))"

subsection \<open>logWork: find or create the week, the day and the task\<close>

text \<open>\<open>s.type === 'week' && s.weekNumber === weekInfo.weekNumber\<close>; \<open>NaN\<close> equals nothing.\<close>

definition is_target_week :: "int option \<Rightarrow> sect \<Rightarrow> bool" where
  "is_target_week wn s =
     (case s of Header ls \<Rightarrow> False | Week w \<Rightarrow> weekNumber w \<noteq> None \<and> weekNumber w = wn)"

text \<open>The comparator of \<open>sections.sort\<close>: 0 unless both are weeks, else \<open>b - a\<close>.\<close>

definition compareSections :: "sect \<Rightarrow> sect \<Rightarrow> int option" where
  "compareSections a b =
     (case a of
        Header ls \<Rightarrow> Some 0
      | Week x \<Rightarrow>
          (case b of
             Header ls \<Rightarrow> Some 0
           | Week y \<Rightarrow>
               (case weekNumber y of
                  None \<Rightarrow> None
                | Some m \<Rightarrow> (case weekNumber x of None \<Rightarrow> None | Some n \<Rightarrow> Some (m - n)))))"

definition new_week :: "string \<Rightarrow> int option \<Rightarrow> week" where
  "new_week weekHeader wn =
     \<lparr> w_header = ''## '' @ weekHeader, weekNumber = wn,
       w_content = [[], ''Last week:'', [], ''This week:'', []], days = [] \<rparr>"

definition new_day :: "string \<Rightarrow> day" where
  "new_day dailyHeader =
     \<lparr> d_header = ''### '' @ dailyHeader, d_date = dailyHeader, d_content = [], tasks = [] \<rparr>"

definition new_task :: "string \<Rightarrow> string \<Rightarrow> task" where
  "new_task tid sm = \<lparr> trackingId = tid, summary = sm, t_content = [] \<rparr>"

text \<open>The loop over \<open>workItems\<close>: a line is pushed unless \<open>content.includes\<close> it.\<close>

definition work_line :: "string \<Rightarrow> string" where
  "work_line workItem = ''  - '' @ workItem"

fun add_work_items :: "string list \<Rightarrow> string list \<Rightarrow> string list" where
  "add_work_items content [] = content"
| "add_work_items content (workItem # rest) =
     (let workLine = work_line workItem in
      add_work_items (if workLine \<in> set content then content else content @ [workLine]) rest)"

text \<open>
  The objects found or created are updated in place; in the model an object is the
  index it has in its array, and the array is written back at that index.
\<close>

definition update_tasks :: "string \<Rightarrow> string \<Rightarrow> string list \<Rightarrow> task list \<Rightarrow> task list" where
  "update_tasks tid sm workItems ts =
     (let (ts1, i) = (case find_index (\<lambda>t. trackingId t = tid) ts of
                        None \<Rightarrow> (ts @ [new_task tid sm], length ts)
                      | Some i \<Rightarrow> (ts[i := (ts ! i) \<lparr> summary := sm \<rparr>], i));
          taskEntry = ts1 ! i in
      ts1[i := taskEntry \<lparr> t_content := add_work_items (t_content taskEntry) workItems \<rparr>])"

definition update_days ::
  "env \<Rightarrow> string \<Rightarrow> string \<Rightarrow> string \<Rightarrow> string list \<Rightarrow> day list \<Rightarrow> day list" where
  "update_days e dailyHeader tid sm workItems ds =
     (let (ds1, i) = (case find_index (\<lambda>d. d_date d = dailyHeader) ds of
                        None \<Rightarrow>
                          (let sorted = js_sort (\<lambda>a b. compareDates e (d_date a) (d_date b))
                                          (ds @ [new_day dailyHeader]) in
                           (sorted, index_of (new_day dailyHeader) sorted))
                      | Some i \<Rightarrow> (ds, i));
          daySection = ds1 ! i in
      ds1[i := daySection \<lparr> tasks := update_tasks tid sm workItems (tasks daySection) \<rparr>])"

definition update_sections ::
  "env \<Rightarrow> int option \<Rightarrow> string \<Rightarrow> string \<Rightarrow> string \<Rightarrow> string \<Rightarrow> string list
     \<Rightarrow> sect list \<Rightarrow> sect list" where
  "update_sections e wn weekHeader dailyHeader tid sm workItems secs =
     (let (secs1, i) = (case find_index (is_target_week wn) secs of
                          None \<Rightarrow>
                            (let sorted = js_sort compareSections
                                            (secs @ [Week (new_week weekHeader wn)]) in
                             (sorted, index_of (Week (new_week weekHeader wn)) sorted))
                        | Some i \<Rightarrow> (secs, i)) in
      case secs1 ! i of
        Header ls \<Rightarrow> secs1
      | Week weekSection \<Rightarrow>
          secs1[i := Week (weekSection
                    \<lparr> days := update_days e dailyHeader tid sm workItems (days weekSection) \<rparr>)])"

subsection \<open>logWork: rebuild the content\<close>

definition render_task :: "task \<Rightarrow> string list" where
  "render_task t = [[], ''- '' @ trackingId t @ '': '' @ summary t] @ t_content t"

definition render_day :: "day \<Rightarrow> string list" where
  "render_day d = [[], d_header d] @ d_content d @ concat (map render_task (tasks d))"

definition render_week :: "week \<Rightarrow> string list" where
  "render_week w = [[], w_header w] @ w_content w @ concat (map render_day (days w))"

definition is_header :: "sect \<Rightarrow> bool" where
  "is_header s = (case s of Header ls \<Rightarrow> True | Week w \<Rightarrow> False)"

definition is_week :: "sect \<Rightarrow> bool" where
  "is_week s = (case s of Header ls \<Rightarrow> False | Week w \<Rightarrow> True)"

definition header_lines :: "sect \<Rightarrow> string list" where
  "header_lines s = (case s of Header ls \<Rightarrow> ls | Week w \<Rightarrow> [])"

definition week_lines :: "sect \<Rightarrow> string list" where
  "week_lines s = (case s of Header ls \<Rightarrow> [] | Week w \<Rightarrow> render_week w)"

text \<open>
  \<open>output\<close>: the lines of the sections of type \<open>header\<close>, then those of the sections
  of type \<open>week\<close>.
\<close>

definition output_lines :: "sect list \<Rightarrow> string list" where
  "output_lines secs =
     concat (map header_lines (filter is_header secs))
     @ concat (map week_lines (filter is_week secs))"

text \<open>\<open>newContent = output.join('\n') + '\n'\<close>\<close>

definition render :: "sect list \<Rightarrow> string" where
  "render secs = join_lines (output_lines secs) @ [LF]"

text \<open>From the text of the file to its new text: parse, find or create, rebuild.\<close>

definition update_text ::
  "env \<Rightarrow> int option \<Rightarrow> string \<Rightarrow> string \<Rightarrow> string \<Rightarrow> string \<Rightarrow> string list
     \<Rightarrow> string \<Rightarrow> error + string" where
  "update_text e wn weekHeader dailyHeader tid sm workItems content =
     (case parseWorklog content of
        Inl err \<Rightarrow> Inl err
      | Inr secs \<Rightarrow>
          Inr (render (update_sections e wn weekHeader dailyHeader tid sm workItems secs)))"

subsection \<open>logWork: the entry point and its files\<close>

text \<open>
  A path is the list of its segments (\<open>path.join\<close> appends one). The file system holds
  the text of each file and the set of directories; every call of \<open>fs\<close> and of the
  formatter is logged in order.
\<close>

type_synonym path = "string list"

record filesys =
  files :: "path \<Rightarrow> string option"
  dirs :: "path set"

datatype io =
    ExistsSync path
  | MkdirSync path
  | ReadFileSync path
  | WriteFileSync path string
  | FormatWorklog path

definition existsSync :: "filesys \<Rightarrow> path \<Rightarrow> bool" where
  "existsSync fs p = (files fs p \<noteq> None \<or> p \<in> dirs fs)"

text \<open>\<open>fs.mkdirSync(p, { recursive: true })\<close>: fails when a file stands in the way.\<close>

definition ancestors :: "path \<Rightarrow> path list" where
  "ancestors p = map (\<lambda>k. take k p) [0..<Suc (length p)]"

definition mkdirSync :: "filesys \<Rightarrow> path \<Rightarrow> error + filesys" where
  "mkdirSync fs p =
     (if list_ex (\<lambda>q. files fs q \<noteq> None) (ancestors p) then Inl IOFailure
      else Inr (fs \<lparr> dirs := dirs fs \<union> set (ancestors p) \<rparr>))"

definition readFileSync :: "filesys \<Rightarrow> path \<Rightarrow> error + string" where
  "readFileSync fs p = (case files fs p of None \<Rightarrow> Inl IOFailure | Some c \<Rightarrow> Inr c)"

definition writeFileSync :: "filesys \<Rightarrow> path \<Rightarrow> string \<Rightarrow> error + filesys" where
  "writeFileSync fs p c =
     (if p \<in> dirs fs \<or> butlast p \<notin> dirs fs then Inl IOFailure
      else Inr (fs \<lparr> files := (files fs)(p \<mapsto> c) \<rparr>))"

text \<open>
  \<open>formatWorklog(filePath)\<close> runs the external formatter on the file; when the file is
  missing or the formatter fails, it ends the process with \<open>process.exit(1)\<close>.
\<close>

definition formatWorklog :: "env \<Rightarrow> filesys \<Rightarrow> path \<Rightarrow> error + filesys" where
  "formatWorklog e fs p =
     (case files fs p of
        None \<Rightarrow> Inl FormatterExit
      | Some c \<Rightarrow>
          (case prettier e c of
             None \<Rightarrow> Inl FormatterExit
           | Some c' \<Rightarrow> Inr (fs \<lparr> files := (files fs)(p \<mapsto> c') \<rparr>)))"

record options =
  o_date :: "string option"
  o_trackingId :: "string option"
  o_summary :: "string option"
  o_workItems :: "string list"

record result =
  r_worklogFile :: path
  r_date :: string
  r_dailyHeader :: string
  r_trackingId :: string
  r_summary :: string
  r_workItems :: "string list"

text \<open>\<open>!s\<close> for a value that is \<open>null\<close> or a string.\<close>

definition falsy :: "string option \<Rightarrow> bool" where
  "falsy s = (case s of None \<Rightarrow> True | Some v \<Rightarrow> v = [])"

definition str :: "string option \<Rightarrow> string" where
  "str s = (case s of None \<Rightarrow> [] | Some v \<Rightarrow> v)"

text \<open>\<open>date || new Date().toISOString().slice(0, 10)\<close>\<close>

definition dateStr_of :: "env \<Rightarrow> string option \<Rightarrow> string" where
  "dateStr_of e d = (if falsy d then toISOString_date (now e) else str d)"

text \<open>Ensure the logs directory exists.\<close>

definition ensure_logsDir :: "filesys \<Rightarrow> path \<Rightarrow> (error + filesys) \<times> io list" where
  "ensure_logsDir fs logsDir =
     (if existsSync fs logsDir then (Inr fs, [ExistsSync logsDir])
      else (mkdirSync fs logsDir, [ExistsSync logsDir, MkdirSync logsDir]))"

text \<open>Read the worklog file, or start a new one from its title line.\<close>

definition read_or_create :: "filesys \<Rightarrow> path \<Rightarrow> weekInfo \<Rightarrow> (error + string) \<times> io list" where
  "read_or_create fs worklogFile wi =
     (if existsSync fs worklogFile
      then (readFileSync fs worklogFile, [ExistsSync worklogFile, ReadFileSync worklogFile])
      else (Inr (''# '' @ replace_first ''-'' ''/'' (wi_month wi) @ '' Contribution log'' @ [LF]),
            [ExistsSync worklogFile]))"

text \<open>
  \<open>logWork(options)\<close>: the outcome, the file system it leaves and the calls it made.
\<close>

definition logWork :: "env \<Rightarrow> filesys \<Rightarrow> options \<Rightarrow> (error + result) \<times> filesys \<times> io list" where
  "logWork e fs opts =
     (if falsy (o_trackingId opts) \<or> falsy (o_summary opts) \<or> o_workItems opts = []
      then (Inl MissingFields, fs, [])
      else
        (let dateStr = dateStr_of e (o_date opts) in
         case getWeekInfo e (Some dateStr) of
           Inl err \<Rightarrow> (Inl err, fs, [])
         | Inr wi \<Rightarrow>
             (let dailyHeader = formatDateHeader e dateStr;
                  logsDir = worklogsPath e @ [''logs''];
                  worklogFile = logsDir @ [wi_month wi @ ''.md''] in
              case ensure_logsDir fs logsDir of
                (Inl err, io1) \<Rightarrow> (Inl err, fs, io1)
              | (Inr fs1, io1) \<Rightarrow>
                  (case read_or_create fs1 worklogFile wi of
                     (Inl err, io2) \<Rightarrow> (Inl err, fs1, io1 @ io2)
                   | (Inr content, io2) \<Rightarrow>
                       (case update_text e (wi_weekNumber wi) (wi_weekHeader wi) dailyHeader
                               (str (o_trackingId opts)) (str (o_summary opts))
                               (o_workItems opts) content of
                          Inl err \<Rightarrow> (Inl err, fs1, io1 @ io2)
                        | Inr newContent \<Rightarrow>
                            (case writeFileSync fs1 worklogFile newContent of
                               Inl err \<Rightarrow>
                                 (Inl err, fs1, io1 @ io2 @ [WriteFileSync worklogFile newContent])
                             | Inr fs2 \<Rightarrow>
                                 (case formatWorklog e fs2 worklogFile of
                                    Inl err \<Rightarrow>
                                      (Inl err, fs2,
                                       io1 @ io2 @ [WriteFileSync worklogFile newContent,
                                                    FormatWorklog worklogFile])
                                  | Inr fs3 \<Rightarrow>
                                      (Inr \<lparr> r_worklogFile = worklogFile,
                                             r_date = dateStr,
                                             r_dailyHeader = dailyHeader,
                                             r_trackingId = str (o_trackingId opts),
                                             r_summary = str (o_summary opts),
                                             r_workItems = o_workItems opts \<rparr>,
                                       fs3,
                                       io1 @ io2 @ [WriteFileSync worklogFile newContent,
                                                    FormatWorklog worklogFile]))))))))"

section \<open>Notions used to state the properties\<close>

text \<open>A list without its repetitions, each element at its first occurrence.\<close>

definition keep_first :: "'a list \<Rightarrow> 'a list" where
  "keep_first xs = rev (remdups (rev xs))"

text \<open>
  The lines that logging \<open>workItems\<close> adds to a task whose content is \<open>content\<close>: the
  work lines that the content does not hold yet, once each, in the order supplied.
\<close>

definition new_lines :: "string list \<Rightarrow> string list \<Rightarrow> string list" where
  "new_lines content workItems =
     keep_first (filter (\<lambda>l. l \<notin> set content) (map work_line workItems))"

text \<open>The free-form content lines of a week section.\<close>

definition week_content :: "sect \<Rightarrow> string list" where
  "week_content s = (case s of Header ls \<Rightarrow> [] | Week w \<Rightarrow> w_content w)"

text \<open>
  Where the lines read so far stand while the parser runs: the lines of the header
  blocks, with the buffer when nothing is open; and the content lines of the weeks, with
  the buffer when a week is open and no day is.
\<close>

definition pending_header :: "pstate \<Rightarrow> string list" where
  "pending_header st =
     concat (map header_lines (sections st))
     @ (if currentWeek st = None \<and> currentDay st = None then buffer st else [])"

definition pending_week_content :: "pstate \<Rightarrow> string list" where
  "pending_week_content st =
     concat (map week_content (sections st))
     @ (case currentWeek st of
          None \<Rightarrow> []
        | Some w \<Rightarrow> w_content w @ (if currentDay st = None then buffer st else []))"

text \<open>A task is open only inside a day.\<close>

definition task_in_day :: "pstate \<Rightarrow> bool" where
  "task_in_day st = (currentDay st = None \<longrightarrow> currentTask st = None)"

text \<open>
  The title the specification describes for the month \<open>m\<close> (0 to 11) of the year \<open>y\<close>:
  \<open># <Month Name> <Year> Contribution log\<close>.
\<close>

definition month_name :: "int \<Rightarrow> string" where
  "month_name m =
     [''January'', ''February'', ''March'', ''April'', ''May'', ''June'', ''July'', ''August'',
      ''September'', ''October'', ''November'', ''December''] ! nat m"

definition spec_title :: "int \<Rightarrow> int \<Rightarrow> string" where
  "spec_title y m = ''# '' @ month_name m @ '' '' @ show_int y @ '' Contribution log''"

text \<open>
  The ISO 8601 week number of a day (days counted from the epoch, which was a Thursday):
  weeks start on Monday, a week belongs to the year that holds its Thursday, and week 1
  of a year is the week of the year's first Thursday.
\<close>

definition iso_weekday :: "int \<Rightarrow> int" where
  "iso_weekday n = (n + 3) mod 7"

definition thursday_of :: "int \<Rightarrow> int" where
  "thursday_of n = n - iso_weekday n + 3"

definition first_thursday :: "int \<Rightarrow> int" where
  "first_thursday y = (let j = DayFromYear y in j + (3 - iso_weekday j) mod 7)"

definition iso_week :: "int \<Rightarrow> int" where
  "iso_week n = (thursday_of n - first_thursday (YearFromDay (thursday_of n))) div 7 + 1"
text \<open>The week sections of a document, in order.\<close>

fun weeks_of :: "sect list \<Rightarrow> week list" where
  "weeks_of [] = []"
| "weeks_of (Header ls # secs) = weeks_of secs"
| "weeks_of (Week w # secs) = w # weeks_of secs"

text \<open>Descending order of numbers, none of them \<open>NaN\<close>.\<close>

definition desc :: "int option \<Rightarrow> int option \<Rightarrow> bool" where
  "desc a b = (case a of None \<Rightarrow> False | Some x \<Rightarrow> (case b of None \<Rightarrow> False | Some y \<Rightarrow> y \<le> x))"

definition weeks_descending :: "week list \<Rightarrow> bool" where
  "weeks_descending ws = sorted_wrt desc (map weekNumber ws)"

text \<open>The time value of the date of a day section, as \<open>compareDates\<close> reads it.\<close>

definition date_value :: "env \<Rightarrow> string \<Rightarrow> int option" where
  "date_value e d = Date_parse (parse_other e) (slashes_to_hyphens d)"

definition days_descending :: "env \<Rightarrow> day list \<Rightarrow> bool" where
  "days_descending e ds = sorted_wrt desc (map (\<lambda>d. date_value e (d_date d)) ds)"

text \<open>The days of the first week section with the week number, if there is one.\<close>

definition target_days :: "int option \<Rightarrow> sect list \<Rightarrow> day list" where
  "target_days wn secs =
     (case find_index (is_target_week wn) secs of
        None \<Rightarrow> []
      | Some i \<Rightarrow> (case secs ! i of Header ls \<Rightarrow> [] | Week w \<Rightarrow> days w))"

text \<open>
  What holds of the parser's state after every line: the header blocks come before the
  weeks and there is no week section before a week is open; every week has a number; a
  task is open only inside a day; a week with no open day has no closed day, and a day
  with no open task has no closed task.
\<close>

definition numbered :: "sect \<Rightarrow> bool" where
  "numbered s = (case s of Header ls \<Rightarrow> True | Week w \<Rightarrow> weekNumber w \<noteq> None)"

definition headers_first :: "sect list \<Rightarrow> bool" where
  "headers_first secs = (secs = filter is_header secs @ filter is_week secs)"

definition parser_inv :: "pstate \<Rightarrow> bool" where
  "parser_inv st =
     (headers_first (sections st)
      \<and> list_all numbered (sections st)
      \<and> (case currentWeek st of
            None \<Rightarrow> filter is_week (sections st) = []
          | Some w \<Rightarrow> weekNumber w \<noteq> None \<and> (currentDay st = None \<longrightarrow> days w = []))
      \<and> (case currentDay st of
            None \<Rightarrow> currentTask st = None
          | Some d \<Rightarrow> currentTask st = None \<longrightarrow> tasks d = []))"

text \<open>The numbers that the two comparators order by.\<close>

definition week_key :: "sect \<Rightarrow> int" where
  "week_key s = (case s of Header ls \<Rightarrow> 0 | Week w \<Rightarrow> (case weekNumber w of None \<Rightarrow> 0 | Some n \<Rightarrow> n))"

definition day_key :: "env \<Rightarrow> day \<Rightarrow> int" where
  "day_key e d = (case date_value e (d_date d) of None \<Rightarrow> 0 | Some t \<Rightarrow> t)"
text \<open>
  A text with an empty line put before every week header, every day header and every
  task line inside a day (\<open>dayOpen\<close> tells whether a day header has been passed since the
  last week header).
\<close>

fun spaced :: "bool \<Rightarrow> string list \<Rightarrow> string list" where
  "spaced dayOpen [] = []"
| "spaced dayOpen (l # ls) =
     (if is_week_header l then [] # l # spaced False ls
      else if is_day_header l then [] # l # spaced True ls
      else if dayOpen \<and> is_task_line l then [] # l # spaced dayOpen ls
      else l # spaced dayOpen ls)"

text \<open>
  The texts in which the parser closes every node it opened: no week header comes while
  a day is open, and no day header while a task is open. (The parser pushes an open task
  to its day, and an open day to its week, only at the next header of the same level
  and at the end of the text.)
\<close>

fun no_drop :: "bool \<Rightarrow> bool \<Rightarrow> string list \<Rightarrow> bool" where
  "no_drop dayOpen taskOpen [] = True"
| "no_drop dayOpen taskOpen (l # ls) =
     (if is_week_header l then \<not> dayOpen \<and> no_drop False False ls
      else if is_day_header l then \<not> taskOpen \<and> no_drop True False ls
      else if dayOpen \<and> is_task_line l then no_drop dayOpen True ls
      else no_drop dayOpen taskOpen ls)"

text \<open>The lines a parser state stands for: those of its sections, open nodes and buffer.\<close>

definition out_state :: "pstate \<Rightarrow> string list" where
  "out_state st =
     output_lines (sections st)
     @ (case currentWeek st of None \<Rightarrow> [] | Some w \<Rightarrow> render_week w)
     @ (case currentDay st of None \<Rightarrow> [] | Some d \<Rightarrow> render_day d)
     @ (case currentTask st of None \<Rightarrow> [] | Some t \<Rightarrow> render_task t)
     @ buffer st"
text \<open>
  Lines of free content: a line of a header block or of a week's content is not a week
  or day header; a line of a day's or a task's content is not a task line either. No
  line holds a line feed.
\<close>

definition plain :: "string \<Rightarrow> bool" where
  "plain l = (LF \<notin> set l \<and> \<not> is_week_header l \<and> \<not> is_day_header l)"

definition plain_day :: "string \<Rightarrow> bool" where
  "plain_day l = (plain l \<and> \<not> is_task_line l)"

text \<open>The line a task is rebuilt as.\<close>

definition task_line :: "task \<Rightarrow> string" where
  "task_line t = ''- '' @ trackingId t @ '': '' @ summary t"

text \<open>
  Documents whose rebuilt text parses back section by section: every header line is
  recognised as what it is and no content line is recognised as a header. The tasks
  satisfy \<open>P\<close>.
\<close>

definition wf_task :: "task \<Rightarrow> bool" where
  "wf_task t =
     (match_task (task_line t) = Some (trackingId t, summary t) \<and> list_all plain_day (t_content t))"

definition wf_day :: "(task \<Rightarrow> bool) \<Rightarrow> day \<Rightarrow> bool" where
  "wf_day P d =
     (is_day_header (d_header d) \<and> LF \<notin> set (d_header d) \<and> list_all plain_day (d_content d)
      \<and> list_all P (tasks d))"

definition wf_week :: "(task \<Rightarrow> bool) \<Rightarrow> week \<Rightarrow> bool" where
  "wf_week P w =
     (is_week_header (w_header w) \<and> LF \<notin> set (w_header w) \<and> list_all plain (w_content w)
      \<and> list_all (wf_day P) (days w))"

definition wf_sect :: "(task \<Rightarrow> bool) \<Rightarrow> sect \<Rightarrow> bool" where
  "wf_sect P s = (case s of Header ls \<Rightarrow> list_all plain ls | Week w \<Rightarrow> wf_week P w)"

text \<open>The parser's state holds such sections, and buffered lines fit where they will go.\<close>

definition wf_state :: "pstate \<Rightarrow> bool" where
  "wf_state st =
     (list_all (wf_sect wf_task) (sections st)
      \<and> (case currentWeek st of None \<Rightarrow> True | Some w \<Rightarrow> wf_week wf_task w)
      \<and> (case currentDay st of None \<Rightarrow> True | Some d \<Rightarrow> wf_day wf_task d)
      \<and> (case currentTask st of None \<Rightarrow> True | Some t \<Rightarrow> wf_task t \<and> currentDay st \<noteq> None)
      \<and> list_all plain (buffer st)
      \<and> (case currentDay st of None \<Rightarrow> True | Some d \<Rightarrow> list_all plain_day (buffer st)))"

text \<open>All task entries of a document.\<close>

definition week_tasks :: "week \<Rightarrow> task list" where
  "week_tasks w = concat (map tasks (days w))"

definition all_tasks :: "sect list \<Rightarrow> task list" where
  "all_tasks secs = concat (map week_tasks (weeks_of secs))"

text \<open>
  The task entry that logging to week \<open>wn\<close>, day \<open>dh\<close> and tracking id \<open>tid\<close> finds: the
  first task with the id in the first day with the date in the first week with the number.
\<close>

definition lookup_task :: "int option \<Rightarrow> string \<Rightarrow> string \<Rightarrow> sect list \<Rightarrow> task option" where
  "lookup_task wn dh tid secs =
     (case find_index (\<lambda>d. d_date d = dh) (target_days wn secs) of
        None \<Rightarrow> None
      | Some j \<Rightarrow>
          (case find_index (\<lambda>t. trackingId t = tid) (tasks (target_days wn secs ! j)) of
             None \<Rightarrow> None
           | Some k \<Rightarrow> Some (tasks (target_days wn secs ! j) ! k)))"

text \<open>A task with the tracking id \<open>tid\<close> lists no work item of \<open>ws\<close> more than once.\<close>

definition listed_once :: "string \<Rightarrow> string list \<Rightarrow> task \<Rightarrow> bool" where
  "listed_once tid ws t =
     (trackingId t \<noteq> tid \<or> list_all (\<lambda>w. count_list (t_content t) (work_line w) \<le> 1) ws)"

text \<open>
  The tasks a parser state has closed, and what the parser keeps while it reads a rebuilt
  text: every closed task satisfies \<open>P\<close>, the open task will once the buffer is flushed
  into it, and an open task has its day and an open day its week.
\<close>

definition closed_tasks :: "pstate \<Rightarrow> task list" where
  "closed_tasks st =
     all_tasks (sections st)
     @ (case currentWeek st of None \<Rightarrow> [] | Some w \<Rightarrow> week_tasks w)
     @ (case currentDay st of None \<Rightarrow> [] | Some d \<Rightarrow> tasks d)"

definition reading :: "(task \<Rightarrow> bool) \<Rightarrow> pstate \<Rightarrow> bool" where
  "reading P st =
     (list_all P (closed_tasks st)
      \<and> (case currentTask st of
            None \<Rightarrow> True
          | Some t \<Rightarrow> P (t \<lparr> t_content := t_content t @ buffer st \<rparr>) \<and> currentDay st \<noteq> None)
      \<and> (case currentDay st of None \<Rightarrow> True | Some d \<Rightarrow> currentWeek st \<noteq> None))"

text \<open>
  Two calls with the same arguments: the first rebuilds the text of the file, the second
  reads that text and updates what it reads. The result is the task entry that the second
  call logged to, in the document that it then rebuilds the file from.
\<close>

definition log_twice ::
  "env \<Rightarrow> int option \<Rightarrow> string \<Rightarrow> string \<Rightarrow> string \<Rightarrow> string \<Rightarrow> string list
     \<Rightarrow> string \<Rightarrow> error + task option" where
  "log_twice e wn wh dh tid sm ws content =
     (case update_text e wn wh dh tid sm ws content of
        Inl err \<Rightarrow> Inl err
      | Inr content1 \<Rightarrow>
          (case parseWorklog content1 of
             Inl err \<Rightarrow> Inl err
           | Inr secs1 \<Rightarrow>
               Inr (lookup_task wn dh tid (update_sections e wn wh dh tid sm ws secs1))))"

section \<open>Work items of a task\<close>

lemma keep_first_Nil: "keep_first [] = []"
  by (simp add: keep_first_def)

lemma keep_first_Cons:
  "keep_first (x # xs) = x # keep_first (filter (\<lambda>y. y \<noteq> x) xs)"
proof -
  have "remdups (ys @ [x]) = filter (\<lambda>y. y \<noteq> x) (remdups ys) @ [x]" for ys :: "'a list"
    by (induction ys) auto
  then show ?thesis
    by (simp add: keep_first_def remdups_filter rev_filter)
qed

lemma set_keep_first: "set (keep_first xs) = set xs"
  by (simp add: keep_first_def)

lemma distinct_keep_first: "distinct (keep_first xs)"
  by (simp add: keep_first_def)

lemma add_work_items_new_lines:
  "add_work_items c ws = c @ new_lines c ws"
proof (induction ws arbitrary: c)
  case Nil
  show ?case by (simp add: new_lines_def keep_first_Nil)
next
  case (Cons w ws)
  show ?case
  proof (cases "work_line w \<in> set c")
    case True
    then show ?thesis
      using Cons.IH [of c] by (simp add: new_lines_def Let_def)
  next
    case False
    have "filter (\<lambda>l. l \<notin> set (c @ [work_line w])) xs
          = filter (\<lambda>y. y \<noteq> work_line w) (filter (\<lambda>l. l \<notin> set c) xs)" for xs
      by (induction xs) auto
    with False show ?thesis
      using Cons.IH [of "c @ [work_line w]"]
      by (simp add: new_lines_def keep_first_Cons Let_def)
  qed
qed

lemma find_index_less: "find_index P xs = Some i \<Longrightarrow> i < length xs"
  by (induction xs arbitrary: i) (auto split: if_splits)

section \<open>Validation of the fields\<close>

text \<open>
  Claim C5. When the tracking id is missing or empty, or the summary is missing or
  empty, or no work item is given, \<open>logWork\<close> fails with \<open>MissingFields\<close>: it makes no
  file system call (nothing is looked up, read, created or written) and leaves the file
  system as it was.
\<close>

theorem logWork_missing_fields:
  assumes "o_trackingId opts = None \<or> o_trackingId opts = Some []
           \<or> o_summary opts = None \<or> o_summary opts = Some []
           \<or> o_workItems opts = []"
  shows "logWork e fs opts = (Inl MissingFields, fs, [])"
  using assms by (auto simp: logWork_def falsy_def)

theorem logWork_missing_fields_witness:
  "logWork \<lparr> tza = 0, now = 0, parse_other = (\<lambda>s. None), worklogsPath = [''w''], prettier = Some \<rparr>
           \<lparr> files = Map.empty, dirs = {} \<rparr>
           \<lparr> o_date = Some ''2026-01-28'', o_trackingId = Some ''PROJ-123'',
             o_summary = Some ''Dashboard Automations'', o_workItems = [] \<rparr>
   = (Inl MissingFields, \<lparr> files = Map.empty, dirs = {} \<rparr>, [])"
  by (rule logWork_missing_fields) simp

section \<open>The calendar\<close>

lemma div_succ:
  fixes a k :: int
  assumes "0 < k"
  shows "(a + 1) div k = (if (a + 1) mod k = 0 then a div k + 1 else a div k)"
proof (cases "a mod k + 1 = k")
  case True
  have "a + 1 = k * (a div k) + (a mod k + 1)"
    using mult_div_mod_eq [of k a] by simp
  also have "\<dots> = k * (a div k + 1) + 0"
    using True by (simp add: algebra_simps)
  finally have "a + 1 = k * (a div k + 1) + 0" .
  from int_div_pos_eq [OF this] int_mod_pos_eq [OF this] assms show ?thesis by simp
next
  case False
  have r: "0 \<le> a mod k + 1" "a mod k + 1 < k" "a mod k + 1 \<noteq> 0"
    using assms False pos_mod_bound [of k a] pos_mod_sign [of k a] by linarith+
  have e: "a + 1 = k * (a div k) + (a mod k + 1)"
    using mult_div_mod_eq [of k a] by simp
  show ?thesis
    using int_div_pos_eq [OF e r(1,2)] int_mod_pos_eq [OF e r(1,2)] r(3) by simp
qed

lemma m4: "(y - 1968) mod 4 = y mod 4" for y :: int
  by (subst mod_diff_eq [symmetric]) simp
lemma m100: "(y - 1900) mod 100 = y mod 100" for y :: int
  by (subst mod_diff_eq [symmetric]) simp
lemma m400: "(y - 1600) mod 400 = y mod 400" for y :: int
  by (subst mod_diff_eq [symmetric]) simp
lemma d100_4: "y mod 100 = 0 \<Longrightarrow> y mod 4 = 0" for y :: int
  using dvd_trans [of 4 100 y] by (simp add: mod_eq_0_iff_dvd)
lemma d400_100: "y mod 400 = 0 \<Longrightarrow> y mod 100 = 0" for y :: int
  using dvd_trans [of 100 400 y] by (simp add: mod_eq_0_iff_dvd)

lemma DayFromYear_step: "DayFromYear (y + 1) = DayFromYear y + 365 + InLeapYear y"
proof -
  have a: "(y + 1 - 1969) div 4 = (y - 1969) div 4 + (if y mod 4 = 0 then 1 else 0)"
    using div_succ [of 4 "y - 1969"] m4 [of y] by (simp add: algebra_simps)
  have b: "(y + 1 - 1901) div 100 = (y - 1901) div 100 + (if y mod 100 = 0 then 1 else 0)"
    using div_succ [of 100 "y - 1901"] m100 [of y] by (simp add: algebra_simps)
  have c: "(y + 1 - 1601) div 400 = (y - 1601) div 400 + (if y mod 400 = 0 then 1 else 0)"
    using div_succ [of 400 "y - 1601"] m400 [of y] by (simp add: algebra_simps)
  show ?thesis
    unfolding DayFromYear_def InLeapYear_def a b c
    using d100_4 [of y] d400_100 [of y] by auto
qed


lemma div_bounds:
  fixes x k :: int
  assumes "0 < k"
  shows "k * (x div k) \<le> x" and "x < k * (x div k) + k"
  using assms mult_div_mod_eq [of k x] pos_mod_bound [of k x] pos_mod_sign [of k x]
  by linarith+

lemma DayFromYear_bounds:
  "146097 * (y - 1970) - 506 \<le> 400 * DayFromYear y"
  "400 * DayFromYear y \<le> 146097 * (y - 1970) + 589"
  unfolding DayFromYear_def
  using div_bounds [of 4 "y - 1969"] div_bounds [of 100 "y - 1901"] div_bounds [of 400 "y - 1601"]
  by simp_all

lemma DayFromYear_less: "y < z \<Longrightarrow> DayFromYear y < DayFromYear z"
proof (induction "nat (z - y)" arbitrary: z)
  case 0
  then show ?case by simp
next
  case (Suc k)
  show ?case
  proof (cases "z = y + 1")
    case True
    then show ?thesis
      using DayFromYear_step [of y] by (simp add: InLeapYear_def)
  next
    case False
    with Suc.prems have "y < z - 1" by simp
    moreover from Suc.hyps(2) have "k = nat (z - 1 - y)" by simp
    ultimately have "DayFromYear y < DayFromYear (z - 1)"
      using Suc.hyps(1) by blast
    also have "\<dots> < DayFromYear z"
      using DayFromYear_step [of "z - 1"] by (simp add: InLeapYear_def)
    finally show ?thesis .
  qed
qed

lemma YearFromDay_bounds:
  "DayFromYear (YearFromDay n) \<le> n" "n < DayFromYear (YearFromDay n + 1)"
proof -
  define y where "y = 1970 + (n * 400) div 146097"
  have e: "146097 * (y - 1970) \<le> 400 * n" "400 * n < 146097 * (y - 1970) + 146097"
    using div_bounds [of 146097 "n * 400"] by (simp_all add: y_def)
  have b1: "400 * DayFromYear (y - 1) \<le> 146097 * (y - 1970) - 146097 + 589"
    using DayFromYear_bounds(2) [of "y - 1"] by simp
  have b2: "146097 * (y - 1970) + 2 * 146097 - 506 \<le> 400 * DayFromYear (y + 2)"
    using DayFromYear_bounds(1) [of "y + 2"] by simp
  have lo: "DayFromYear (y - 1) \<le> n"
    using b1 e by linarith
  have hi: "n < DayFromYear (y + 2)"
    using b2 e by linarith
  have Y: "YearFromDay n = (if DayFromYear (y + 1) \<le> n then y + 1
                            else if n < DayFromYear y then y - 1 else y)"
    by (simp add: YearFromDay_def y_def Let_def)
  show "DayFromYear (YearFromDay n) \<le> n"
    using lo by (simp add: Y)
  show "n < DayFromYear (YearFromDay n + 1)"
    using hi by (auto simp: Y add.commute)
qed

text \<open>The year of a day is the largest year that starts on or before it.\<close>

lemma YearFromDay_greatest:
  "DayFromYear y \<le> n \<longleftrightarrow> y \<le> YearFromDay n"
proof
  assume "DayFromYear y \<le> n"
  show "y \<le> YearFromDay n"
  proof (rule ccontr)
    assume "\<not> y \<le> YearFromDay n"
    then have "YearFromDay n + 1 \<le> y" by simp
    then have "DayFromYear (YearFromDay n + 1) \<le> DayFromYear y"
      using DayFromYear_less [of "YearFromDay n + 1" y] by (cases "YearFromDay n + 1 = y") auto
    with \<open>DayFromYear y \<le> n\<close> YearFromDay_bounds(2) [of n] show False by simp
  qed
next
  assume "y \<le> YearFromDay n"
  then have "DayFromYear y \<le> DayFromYear (YearFromDay n)"
    using DayFromYear_less [of y "YearFromDay n"] by (cases "y = YearFromDay n") auto
  with YearFromDay_bounds(1) [of n] show "DayFromYear y \<le> n" by simp
qed

lemma MonthFromDay_range: "0 \<le> MonthFromDay n \<and> MonthFromDay n \<le> 11"
  unfolding MonthFromDay_def Let_def by (simp split: if_splits)

lemma Day_midnight: "Day (n * msPerDay) = n" "TimeWithinDay (n * msPerDay) = 0"
  by (simp_all add: Day_def TimeWithinDay_def msPerDay_def)

lemma TimeClip_day: "\<bar>n\<bar> \<le> 100000000 \<Longrightarrow> TimeClip (n * msPerDay) = Some (n * msPerDay)"
  by (simp add: TimeClip_def msPerDay_def)


lemma MakeDay_fields: "MakeDay (YearFromDay n) (MonthFromDay n) (DateFromDay n + k) = n + k"
proof -
  have "MonthFromDay n div 12 = 0" "MonthFromDay n mod 12 = MonthFromDay n"
    using MonthFromDay_range [of n] by simp_all
  then show ?thesis
    by (simp add: MakeDay_def DateFromDay_def DayWithinYear_def)
qed

lemma MakeDay_year_start: "MakeDay y 0 1 = DayFromYear y"
  by (simp add: MakeDay_def MonthStart_def)

lemma mod7_succ:
  fixes n :: int
  shows "(n + 1) mod 7 = (if n mod 7 = 6 then 0 else n mod 7 + 1)"
proof -
  have "(n + 1) mod 7 = (n mod 7 + 1) mod 7"
    by (simp add: mod_add_left_eq)
  moreover have "0 \<le> n mod 7" "n mod 7 < 7" by simp_all
  ultimately show ?thesis by auto
qed

lemma thursday_of_dayNum:
  "n + 4 - (if (n + 4) mod 7 = 0 then 7 else (n + 4) mod 7) = thursday_of n"
proof -
  have "(n + 4) mod 7 = (if (n + 3) mod 7 = 6 then 0 else (n + 3) mod 7 + 1)"
    using mod7_succ [of "n + 3"] by (simp add: algebra_simps)
  then show ?thesis
    unfolding thursday_of_def iso_weekday_def by auto
qed


lemma iso_weekday_thursday_of: "iso_weekday (thursday_of n) = 3"
proof -
  have "n - (n + 3) mod 7 + 3 + 3 = 7 * ((n + 3) div 7) + 3"
    using mult_div_mod_eq [of 7 "n + 3"] by linarith
  from int_mod_pos_eq [OF this] show ?thesis
    by (simp add: iso_weekday_def thursday_of_def)
qed

lemma iso_weekday_first_thursday: "iso_weekday (first_thursday y) = 3"
proof -
  define j where "j = DayFromYear y"
  define r where "r = (j + 3) mod 7"
  have r: "0 \<le> r" "r < 7" "j + 3 = 7 * ((j + 3) div 7) + r"
    using mult_div_mod_eq [of 7 "j + 3"] by (simp_all add: r_def)
  have k: "(3 - r) mod 7 = (if r \<le> 3 then 3 - r else 10 - r)"
  proof (cases "r \<le> 3")
    case True
    with r show ?thesis by simp
  next
    case False
    have "3 - r = 7 * (- 1) + (10 - r)" by simp
    from int_mod_pos_eq [OF this] False r show ?thesis by simp
  qed
  have "j + (3 - r) mod 7 + 3 = 7 * ((j + 3) div 7 + (if r \<le> 3 then 0 else 1)) + 3"
    using r(3) by (simp add: k)
  from int_mod_pos_eq [OF this] show ?thesis
    by (simp add: iso_weekday_def first_thursday_def Let_def j_def [symmetric] r_def [symmetric])
qed

lemma first_thursday_range:
  "DayFromYear y \<le> first_thursday y" "first_thursday y \<le> DayFromYear y + 6"
  by (simp_all add: first_thursday_def Let_def)

lemma ceil_div7_week:
  assumes "iso_weekday thu = 3" and "iso_weekday ft = 3" and "j \<le> ft" and "ft \<le> j + 6"
  shows "ceil_div7 (thu - j + 1) = (thu - ft) div 7 + 1"
proof -
  define a where "a = (thu + 3) div 7"
  define b where "b = (ft + 3) div 7"
  have "thu + 3 = 7 * a + 3" "ft + 3 = 7 * b + 3"
    using assms(1,2) mult_div_mod_eq [of 7 "thu + 3"] mult_div_mod_eq [of 7 "ft + 3"]
    by (simp_all add: iso_weekday_def a_def b_def)
  then have e: "thu - ft = 7 * (a - b) + 0"
    by simp
  have 1: "(thu - ft) div 7 = a - b"
    using int_div_pos_eq [OF e] by simp
  have "- (thu - j + 1) = 7 * (- (a - b) - 1) + (6 - (ft - j))"
    using e by simp
  from int_div_pos_eq [OF this] assms(3,4) have "(- (thu - j + 1)) div 7 = - (a - b) - 1"
    by simp
  with 1 show ?thesis
    by (simp add: ceil_div7_def)
qed


lemma thursday_of_range: "n - 3 \<le> thursday_of n" "thursday_of n \<le> n + 3"
  by (simp_all add: thursday_of_def iso_weekday_def)

lemma DayFromYear_YearFromDay_lower: "n - 366 < DayFromYear (YearFromDay n)"
  using YearFromDay_bounds(2) [of n] DayFromYear_step [of "YearFromDay n"]
  by (simp add: InLeapYear_def split: if_splits)

section \<open>The week number\<close>

text \<open>
  \<open>getWeekNumber\<close> returns the ISO 8601 week number of the local calendar date of its
  argument, for every date of a year outside 0 to 99 (the Thursday of its week too) and
  not within three years of the ends of the range of time values.
\<close>

lemma getWeekNumber_iso:
  fixes tza t :: int
  defines "n \<equiv> Day (LocalTime tza t)"
  assumes range: "\<bar>n\<bar> \<le> 99999000"
    and year: "YearFromDay n < 0 \<or> 99 < YearFromDay n"
    and thursday_year: "YearFromDay (thursday_of n) < 0 \<or> 99 < YearFromDay (thursday_of n)"
  shows "getWeekNumber tza t = Some (iso_week n)"
proof -
  define thu where "thu = thursday_of n"
  define y where "y = YearFromDay thu"
  have fy: "MakeFullYear (YearFromDay n) = YearFromDay n"
    "MakeFullYear (YearFromDay thu) = YearFromDay thu"
    using year thursday_year by (auto simp: MakeFullYear_def thu_def)
  have a: "Date_UTC (getFullYear tza t) (getMonth tza t) (getDate tza t) = Some (n * msPerDay)"
    using range MakeDay_fields [of n 0] TimeClip_day [of n]
    by (simp add: Date_UTC_def fy getFullYear_def getMonth_def getDate_def
          YearFromTime_def MonthFromTime_def DateFromTime_def flip: n_def)
  have tr: "\<bar>thu\<bar> \<le> 100000000"
    using thursday_of_range [of n] range by (simp add: thu_def)
  have dn: "WeekDay (n * msPerDay) = (n + 4) mod 7"
    by (simp add: WeekDay_def Day_midnight)
  have dt: "DateFromTime (n * msPerDay) + 4
              - (if WeekDay (n * msPerDay) = 0 then 7 else WeekDay (n * msPerDay))
            = DateFromDay n + (thu - n)"
    using thursday_of_dayNum [of n] unfolding dn DateFromTime_def Day_midnight thu_def
    by linarith
  have b: "setUTCDate (n * msPerDay)
             (DateFromTime (n * msPerDay) + 4
              - (if WeekDay (n * msPerDay) = 0 then 7 else WeekDay (n * msPerDay)))
           = Some (thu * msPerDay)"
    unfolding dt setUTCDate_def YearFromTime_def MonthFromTime_def Day_midnight MakeDay_fields
    using TimeClip_day [OF tr] by simp
  have jr: "\<bar>DayFromYear y\<bar> \<le> 100000000"
    using YearFromDay_bounds(1) [of thu] DayFromYear_YearFromDay_lower [of thu] tr
      thursday_of_range [of n] range
    by (simp add: y_def thu_def)
  have c: "Date_UTC (YearFromTime (thu * msPerDay)) 0 1 = Some (DayFromYear y * msPerDay)"
    using TimeClip_day [OF jr] fy(2)
    by (simp add: Date_UTC_def YearFromTime_def Day_midnight
          MakeDay_year_start flip: y_def)
  have d: "(thu * msPerDay - DayFromYear y * msPerDay) div msPerDay = thu - DayFromYear y"
    by (simp add: msPerDay_def algebra_simps flip: right_diff_distrib)
  have w: "ceil_div7 (thu - DayFromYear y + 1) = iso_week n"
    using ceil_div7_week [of thu "first_thursday y" "DayFromYear y"]
      iso_weekday_thursday_of [of n] iso_weekday_first_thursday [of y] first_thursday_range [of y]
    by (simp add: iso_week_def thu_def y_def)
  show ?thesis
    unfolding getWeekNumber_def a option.case Let_def b c d w ..
qed

text \<open>
  Claim C4 fails on the code for the years 0 to 99. \<open>Date.UTC\<close> reads such a year as
  1900 + year, so the week number of 6 March of the year 50, a Sunday of ISO week 9, is
  computed from 6 March 1950, a Monday of week 10. The boundary cases of the claim come
  out right: 31 December 2024 is in week 1, 1 January 2021 in week 53.
\<close>

theorem getWeekNumber_two_digit_year:
  "Date_parse (\<lambda>s. None) ''0050-03-06'' = Some (- 60583766400000)
   \<and> getFullYear 0 (- 60583766400000) = 50
   \<and> iso_weekday (Day (- 60583766400000)) = 6
   \<and> iso_week (Day (- 60583766400000)) = 9
   \<and> getWeekNumber 0 (- 60583766400000) = Some 10
   \<and> Date_parse (\<lambda>s. None) ''1950-03-06'' = Some (- 625622400000)
   \<and> getWeekNumber 0 (- 625622400000) = Some 10
   \<and> Date_parse (\<lambda>s. None) ''2024-12-31'' = Some 1735603200000
   \<and> getWeekNumber 0 1735603200000 = Some 1
   \<and> Date_parse (\<lambda>s. None) ''2021-01-01'' = Some 1609459200000
   \<and> getWeekNumber 0 1609459200000 = Some 53"
  by code_simp

section \<open>The week range\<close>

text \<open>
  Claim C8 fails on the code where local time is not UTC. \<open>getWeekRange\<close> finds the
  Monday with the local getters and prints it with \<open>toISOString\<close>, which is UTC. Five
  hours west of UTC, the date \<open>2026-01-26\<close> (a Monday, parsed as UTC midnight, which is
  Sunday evening local time) gets the range from \<open>2026-01-20\<close>, a Tuesday, to
  \<open>2026-01-26\<close>, a Monday. With local time equal to UTC the range is Monday
  \<open>2026-01-26\<close> to Sunday \<open>2026-02-01\<close>.
\<close>

theorem getWeekRange_west_of_utc:
  "Date_parse (\<lambda>s. None) ''2026-01-26'' = Some 1769385600000
   \<and> getWeekRange (- 18000000) 1769385600000 = Inr (''2026-01-20'', ''2026-01-26'')
   \<and> Date_parse (\<lambda>s. None) ''2026-01-20'' = Some 1768867200000
   \<and> iso_weekday (Day 1768867200000) = 1
   \<and> iso_weekday (Day 1769385600000) = 0
   \<and> getWeekRange 0 1769385600000 = Inr (''2026-01-26'', ''2026-02-01'')"
  by code_simp

section \<open>Task lines outside a day\<close>

lemma task_line_not_header: "is_task_line l \<Longrightarrow> \<not> is_week_header l \<and> \<not> is_day_header l"
  by (cases l) (auto simp: is_task_line_def is_week_header_def is_day_header_def)

lemma flushBuffer_fields:
  "sections (flushBuffer st) = (if buffer st \<noteq> [] \<and> currentTask st = None \<and> currentDay st = None \<and> currentWeek st = None then sections st @ [Header (buffer st)] else sections st)"
  "buffer (flushBuffer st) = []"
  "currentTask (flushBuffer st) = map_option (\<lambda>t. t \<lparr> t_content := t_content t @ buffer st \<rparr>) (currentTask st)"
  "currentDay (flushBuffer st) = (if currentTask st = None then map_option (\<lambda>d. d \<lparr> d_content := d_content d @ buffer st \<rparr>) (currentDay st) else currentDay st)"
  "currentWeek (flushBuffer st) = (if currentTask st = None \<and> currentDay st = None then map_option (\<lambda>w. w \<lparr> w_content := w_content w @ buffer st \<rparr>) (currentWeek st) else currentWeek st)"
  by (auto simp: flushBuffer_def split: option.splits)

lemma task_in_day_init: "task_in_day init_pstate"
  by (simp add: task_in_day_def init_pstate_def)

lemma parse_line_task_in_day:
  "parse_line st l = Inr st' \<Longrightarrow> task_in_day st \<Longrightarrow> task_in_day st'"
  by (auto simp: parse_line_def task_in_day_def Let_def flushBuffer_fields
        split: if_splits option.splits)

lemma parse_line_pending:
  assumes "parse_line st l = Inr st'" "task_in_day st"
  shows "set (pending_header st) \<subseteq> set (pending_header st')"
    and "set (pending_week_content st) \<subseteq> set (pending_week_content st')"
  using assms
  by (cases "currentWeek st"; cases "currentDay st"; cases "currentTask st";
      auto simp: parse_line_def task_in_day_def Let_def flushBuffer_fields pending_header_def
        pending_week_content_def header_lines_def week_content_def option.map_ident
        split: if_splits option.splits)+

lemma parse_lines_append:
  "parse_lines st (xs @ ys) =
     (case parse_lines st xs of Inl e \<Rightarrow> Inl e | Inr st' \<Rightarrow> parse_lines st' ys)"
  by (induction xs arbitrary: st) (auto split: sum.splits)

lemma parse_lines_pending:
  assumes "parse_lines st ls = Inr st'" "task_in_day st"
  shows "set (pending_header st) \<subseteq> set (pending_header st')
         \<and> set (pending_week_content st) \<subseteq> set (pending_week_content st')
         \<and> task_in_day st'"
  using assms
proof (induction ls arbitrary: st)
  case Nil
  then show ?case by simp
next
  case (Cons l ls)
  then obtain st1 where 1: "parse_line st l = Inr st1" and 2: "parse_lines st1 ls = Inr st'"
    by (auto split: sum.splits)
  from Cons.IH [OF 2 parse_line_task_in_day [OF 1 Cons.prems(2)]]
    parse_line_pending [OF 1 Cons.prems(2)]
  show ?case by blast
qed

lemma finish_pending:
  assumes "finish st = Inr doc" "task_in_day st"
  shows "set (pending_header st) \<subseteq> set (concat (map header_lines doc))"
    and "set (pending_week_content st) \<subseteq> set (concat (map week_content doc))"
  using assms
  by (cases "currentWeek st"; cases "currentDay st"; cases "currentTask st";
      auto simp: finish_def task_in_day_def Let_def flushBuffer_fields pending_header_def
        pending_week_content_def header_lines_def week_content_def option.map_ident
        split: if_splits option.splits)+

text \<open>
  Claim C9. Let the parser have read the lines \<open>pre\<close> and have no day open. A line that
  matches the task pattern then opens no task: it is appended to the buffer and nothing
  else of the state changes (no task is open either). Whatever lines follow, if the
  parse ends with a document, the line is a content line of a week section when a week
  was open, and a line of a header block when none was.
\<close>

theorem task_line_outside_day:
  assumes "parse_lines init_pstate pre = Inr st" and "currentDay st = None" and "is_task_line l"
  shows "parse_lines init_pstate (pre @ [l]) = Inr (st \<lparr> buffer := buffer st @ [l] \<rparr>)
         \<and> currentTask st = None
         \<and> (\<forall>post st' doc.
               parse_lines init_pstate (pre @ l # post) = Inr st' \<and> finish st' = Inr doc \<longrightarrow>
                 (case currentWeek st of
                    None \<Rightarrow> l \<in> set (concat (map header_lines doc))
                  | Some w \<Rightarrow> l \<in> set (concat (map week_content doc))))"
proof -
  from parse_lines_pending [OF assms(1) task_in_day_init]
  have inv: "task_in_day st" by simp
  have step: "parse_line st l = Inr (st \<lparr> buffer := buffer st @ [l] \<rparr>)"
    using assms(2,3) task_line_not_header [of l] by (simp add: parse_line_def)
  let ?st1 = "st \<lparr> buffer := buffer st @ [l] \<rparr>"
  have inv1: "task_in_day ?st1"
    using inv by (simp add: task_in_day_def)
  have a: "parse_lines init_pstate (pre @ [l]) = Inr ?st1"
    using assms(1) step by (simp add: parse_lines_append)
  have b: "currentTask st = None"
    using inv assms(2) by (simp add: task_in_day_def)
  have c: "case currentWeek st of
             None \<Rightarrow> l \<in> set (concat (map header_lines doc))
           | Some w \<Rightarrow> l \<in> set (concat (map week_content doc))"
    if p: "parse_lines init_pstate (pre @ l # post) = Inr st'" and f: "finish st' = Inr doc"
    for post st' doc
  proof -
    from p assms(1) step have p': "parse_lines ?st1 post = Inr st'"
      by (simp add: parse_lines_append)
    note m = parse_lines_pending [OF p' inv1]
    note fp = finish_pending [OF f] 
    show ?thesis
    proof (cases "currentWeek st")
      case None
      then have "l \<in> set (pending_header ?st1)"
        using assms(2) by (simp add: pending_header_def)
      with m fp None show ?thesis by auto
    next
      case (Some w)
      then have "l \<in> set (pending_week_content ?st1)"
        using assms(2) by (simp add: pending_week_content_def)
      with m fp Some show ?thesis by auto
    qed
  qed
  from a b c show ?thesis by blast
qed


theorem task_line_outside_day_witness:
  "parse_lines init_pstate [''# T'', ''## Week 5'', ''notes'']
     = Inr \<lparr> sections = [Header [''# T'']],
             currentWeek = Some \<lparr> w_header = ''## Week 5'', weekNumber = Some 5,
                                  w_content = [], days = [] \<rparr>,
             currentDay = None, currentTask = None, buffer = [''notes''] \<rparr>
   \<and> is_task_line ''- PROJ-1: S''
   \<and> parse_lines init_pstate ([''# T'', ''## Week 5'', ''notes''] @ [''- PROJ-1: S''])
     = Inr \<lparr> sections = [Header [''# T'']],
             currentWeek = Some \<lparr> w_header = ''## Week 5'', weekNumber = Some 5,
                                  w_content = [], days = [] \<rparr>,
             currentDay = None, currentTask = None, buffer = [''notes'', ''- PROJ-1: S''] \<rparr>
   \<and> finish \<lparr> sections = [Header [''# T'']],
             currentWeek = Some \<lparr> w_header = ''## Week 5'', weekNumber = Some 5,
                                  w_content = [], days = [] \<rparr>,
             currentDay = None, currentTask = None, buffer = [''notes'', ''- PROJ-1: S''] \<rparr>
     = Inr [Header [''# T''],
            Week \<lparr> w_header = ''## Week 5'', weekNumber = Some 5,
                   w_content = [''notes'', ''- PROJ-1: S''], days = [] \<rparr>]
   \<and> ''- PROJ-1: S'' \<in> set (concat (map week_content
         [Header [''# T''],
          Week \<lparr> w_header = ''## Week 5'', weekNumber = Some 5,
                 w_content = [''notes'', ''- PROJ-1: S''], days = [] \<rparr>]))"
proof -
  let ?st = "\<lparr> sections = [Header [''# T'']],
               currentWeek = Some \<lparr> w_header = ''## Week 5'', weekNumber = Some 5,
                                    w_content = [], days = [] \<rparr>,
               currentDay = None, currentTask = None, buffer = [''notes''] \<rparr>"
  let ?doc = "[Header [''# T''],
               Week \<lparr> w_header = ''## Week 5'', weekNumber = Some 5,
                      w_content = [''notes'', ''- PROJ-1: S''], days = [] \<rparr>]"
  have h1: "parse_lines init_pstate [''# T'', ''## Week 5'', ''notes''] = Inr ?st"
    by code_simp
  have h2: "currentDay ?st = None" by simp
  have h3: "is_task_line ''- PROJ-1: S''" by code_simp
  note T = task_line_outside_day [OF h1 h2 h3]
  have f: "finish (?st \<lparr> buffer := buffer ?st @ [''- PROJ-1: S''] \<rparr>) = Inr ?doc"
    by code_simp
  from T have p: "parse_lines init_pstate ([''# T'', ''## Week 5'', ''notes''] @ [''- PROJ-1: S''])
                  = Inr (?st \<lparr> buffer := buffer ?st @ [''- PROJ-1: S''] \<rparr>)"
    by blast
  from T p f
  have "case currentWeek ?st of
          None \<Rightarrow> ''- PROJ-1: S'' \<in> set (concat (map header_lines ?doc))
        | Some w \<Rightarrow> ''- PROJ-1: S'' \<in> set (concat (map week_content ?doc))"
    by blast
  then have "''- PROJ-1: S'' \<in> set (concat (map week_content ?doc))"
    by simp
  with h1 h3 p f show ?thesis by simp
qed

section \<open>The slash of a month key\<close>

lemma digit_char_not_hyphen: "k < 10 \<Longrightarrow> digit_char k \<noteq> CHR ''-''"
proof -
  assume "k < 10"
  then have "k \<in> {0,1,2,3,4,5,6,7,8,9}" by auto
  then show ?thesis
    unfolding digit_char_def by (elim insertE emptyE; simp; code_simp)
qed

lemma show_nat_no_hyphen: "CHR ''-'' \<notin> set (show_nat n)"
proof (induction n rule: show_nat.induct)
  case (1 n)
  show ?case
  proof (cases "n < 10")
    case True
    then show ?thesis
      using digit_char_not_hyphen [of n] by (subst show_nat.simps) simp
  next
    case False
    then show ?thesis
      using 1 digit_char_not_hyphen [of "n mod 10"] by (subst show_nat.simps) simp
  qed
qed

lemma replace_first_hyphen:
  "CHR ''-'' \<notin> set a \<Longrightarrow> replace_first ''-'' ''/'' (a @ ''-'' @ b) = a @ ''/'' @ b"
  by (induction a) auto

lemma month_key_title:
  "0 \<le> y \<Longrightarrow> replace_first ''-'' ''/'' (show_int y @ ''-'' @ mm) = show_int y @ ''/'' @ mm"
  by (rule replace_first_hyphen) (simp add: show_int_def show_nat_no_hyphen)

section \<open>Invalid dates\<close>

text \<open>
  Claim C6, as amended. For every non-empty date string that does not parse to a date,
  \<open>getWeekInfo\<close> throws \<open>Invalid date\<close>, and \<open>logWork\<close> called with it and with the
  required fields fails with that error before any file system call: nothing is
  written, and the current date is not used instead.
\<close>

theorem invalid_date_aborts:
  assumes "Date_parse (parse_other e) s = None"
    and "s \<noteq> []"
    and "o_date opts = Some s"
    and "\<not> falsy (o_trackingId opts)" and "\<not> falsy (o_summary opts)" and "o_workItems opts \<noteq> []"
  shows "getWeekInfo e (Some s) = Inl (InvalidDate s)
         \<and> logWork e fs opts = (Inl (InvalidDate s), fs, [])"
  using assms by (simp add: getWeekInfo_def logWork_def dateStr_of_def falsy_def str_def)

theorem invalid_date_aborts_witness:
  "getWeekInfo \<lparr> tza = 0, now = 0, parse_other = (\<lambda>s. None), worklogsPath = [''w''], prettier = Some \<rparr>
     (Some ''not a date'') = Inl (InvalidDate ''not a date'')
   \<and> logWork \<lparr> tza = 0, now = 0, parse_other = (\<lambda>s. None), worklogsPath = [''w''], prettier = Some \<rparr>
        \<lparr> files = Map.empty, dirs = {} \<rparr>
        \<lparr> o_date = Some ''not a date'', o_trackingId = Some ''PROJ-123'',
          o_summary = Some ''Dashboard Automations'', o_workItems = [''Implemented selector''] \<rparr>
     = (Inl (InvalidDate ''not a date''), \<lparr> files = Map.empty, dirs = {} \<rparr>, [])"
  by (rule invalid_date_aborts) (simp_all add: falsy_def Date_parse_def parse_iso_date_def)

text \<open>
  Claim C6 as stated fails for the empty string, which parses to no date: both
  \<open>date || ...\<close> in \<open>logWork\<close> and \<open>dateStr ? ... : new Date()\<close> in \<open>getWeekInfo\<close> take
  it as absent and go on with the current date (here the epoch, 1 January 1970).
\<close>

theorem invalid_date_counterexample:
  "Date_parse (\<lambda>s. None) [] = None
   \<and> getWeekInfo \<lparr> tza = 0, now = 0, parse_other = (\<lambda>s. None), worklogsPath = [''w''], prettier = Some \<rparr>
       (Some [])
     = Inr \<lparr> wi_date = ''1970-01-01'', wi_year = 1970, wi_month = ''1970-01'',
             wi_weekNumber = Some 1, wi_weekHeader = ''Week 1'',
             wi_weekRange = (''1969-12-29'', ''1970-01-04'') \<rparr>
   \<and> fst (logWork \<lparr> tza = 0, now = 0, parse_other = (\<lambda>s. None), worklogsPath = [''w''], prettier = Some \<rparr>
        \<lparr> files = Map.empty, dirs = {[]} \<rparr>
        \<lparr> o_date = Some [], o_trackingId = Some ''PROJ-123'',
          o_summary = Some ''Dashboard Automations'', o_workItems = [''Implemented selector''] \<rparr>)
     = Inr \<lparr> r_worklogFile = [''w'', ''logs'', ''1970-01.md''], r_date = ''1970-01-01'',
             r_dailyHeader = ''1970/01/01'', r_trackingId = ''PROJ-123'',
             r_summary = ''Dashboard Automations'', r_workItems = [''Implemented selector''] \<rparr>"
  by code_simp

section \<open>Sorting by a key\<close>

lemma set_insert_rev: "set (insert_rev cmp x acc) = insert x (set acc)"
  by (induction acc) auto

lemma set_js_sort: "set (js_sort cmp xs) = set xs"
proof -
  have "set (foldl (\<lambda>acc x. insert_rev cmp x acc) acc xs) = set acc \<union> set xs" for acc
    by (induction xs arbitrary: acc) (auto simp: set_insert_rev)
  then show ?thesis by (simp add: js_sort_def)
qed

lemma length_insert_rev: "length (insert_rev cmp x acc) = Suc (length acc)"
  by (induction acc) auto

lemma insert_rev_sorted:
  assumes "\<And>y. y \<in> set acc \<Longrightarrow> cmp_gt cmp y x \<longleftrightarrow> k y < k x"
    and "sorted_wrt (\<lambda>a b. k a \<le> k b) acc"
  shows "sorted_wrt (\<lambda>a b. k a \<le> (k b :: int)) (insert_rev cmp x acc)"
  using assms
proof (induction acc)
  case Nil
  then show ?case by simp
next
  case (Cons y ys)
  show ?case
  proof (cases "cmp_gt cmp y x")
    case True
    then have "k y < k x" using Cons.prems(1) by simp
    moreover have "sorted_wrt (\<lambda>a b. k a \<le> k b) (insert_rev cmp x ys)"
      using Cons by simp
    ultimately show ?thesis
      using True Cons.prems(2) by (auto simp: set_insert_rev)
  next
    case False
    then have "k x \<le> k y" using Cons.prems(1) [of y] by simp
    with False Cons.prems(2) show ?thesis by auto
  qed
qed

lemma js_sort_sorted:
  assumes "\<And>a b. a \<in> set xs \<Longrightarrow> b \<in> set xs \<Longrightarrow> cmp_gt cmp a b \<longleftrightarrow> k a < k b"
  shows "sorted_wrt (\<lambda>a b. k b \<le> (k a :: int)) (js_sort cmp xs)"
proof -
  have "sorted_wrt (\<lambda>a b. k a \<le> k b) (foldl (\<lambda>acc x. insert_rev cmp x acc) acc ys)"
    if "sorted_wrt (\<lambda>a b. k a \<le> k b) acc" "set acc \<union> set ys \<subseteq> set xs" for acc ys
    using that
  proof (induction ys arbitrary: acc)
    case Nil
    then show ?case by simp
  next
    case (Cons y ys)
    have "sorted_wrt (\<lambda>a b. k a \<le> k b) (insert_rev cmp y acc)"
      using Cons.prems assms by (intro insert_rev_sorted) auto
    with Cons show ?case by (simp add: set_insert_rev)
  qed
  from this [of "[]" xs] show ?thesis
    by (simp add: js_sort_def sorted_wrt_rev)
qed

lemma insert_rev_append:
  assumes "b \<noteq> []" "\<not> cmp_gt cmp (hd b) x"
  shows "insert_rev cmp x (a @ b) = insert_rev cmp x a @ b"
  using assms by (induction a) (auto simp: neq_Nil_conv)

lemma foldl_insert_rev_append:
  assumes "b \<noteq> []" "\<And>x. x \<in> set xs \<Longrightarrow> \<not> cmp_gt cmp (hd b) x"
  shows "foldl (\<lambda>acc x. insert_rev cmp x acc) (a @ b) xs
         = foldl (\<lambda>acc x. insert_rev cmp x acc) a xs @ b"
  using assms by (induction xs arbitrary: a) (simp_all add: insert_rev_append)

section \<open>What the parser maintains\<close>

lemma headers_first_snoc_week: "headers_first secs \<Longrightarrow> headers_first (secs @ [Week w])"
  by (simp add: headers_first_def is_header_def is_week_def)

lemma headers_first_snoc_header:
  "headers_first secs \<Longrightarrow> filter is_week secs = [] \<Longrightarrow> headers_first (secs @ [Header b])"
  by (simp add: headers_first_def is_header_def is_week_def)

lemma parser_inv_init: "parser_inv init_pstate"
  by (simp add: parser_inv_def init_pstate_def headers_first_def)

lemma parser_inv_flush: "parser_inv st \<Longrightarrow> parser_inv (flushBuffer st)"
  by (cases "currentWeek st"; cases "currentDay st"; cases "currentTask st")
     (auto simp: parser_inv_def flushBuffer_fields headers_first_snoc_header numbered_def
        is_week_def)


text \<open>The four kinds of line, one lemma each.\<close>

lemma parse_line_week:
  assumes "is_week_header l"
  shows "parse_line st l =
           Inr ((flushBuffer st)
                 \<lparr> sections := (case currentWeek (flushBuffer st) of
                                  Some w \<Rightarrow> sections (flushBuffer st) @ [Week w]
                                | None \<Rightarrow> sections (flushBuffer st)),
                   currentWeek := Some \<lparr> w_header = l,
                                         weekNumber = Some (int (parseInt (first_digits l))),
                                         w_content = [], days = [] \<rparr>,
                   currentDay := None, currentTask := None \<rparr>)"
  using assms by (simp add: parse_line_def Let_def)

lemma parse_line_day:
  assumes "\<not> is_week_header l" "is_day_header l"
  shows "parse_line st l =
           (case currentDay (flushBuffer st) of
              None \<Rightarrow>
                Inr ((flushBuffer st)
                      \<lparr> currentDay := Some \<lparr> d_header = l, d_date = replace_first ''### '' [] l,
                                             d_content = [], tasks = [] \<rparr>,
                        currentTask := None \<rparr>)
            | Some d \<Rightarrow>
                (case currentWeek (flushBuffer st) of
                   None \<Rightarrow> Inl TypeError
                 | Some w \<Rightarrow>
                     Inr ((flushBuffer st)
                           \<lparr> currentWeek := Some (w \<lparr> days := days w @ [d] \<rparr>),
                             currentDay := Some \<lparr> d_header = l,
                                                  d_date = replace_first ''### '' [] l,
                                                  d_content = [], tasks = [] \<rparr>,
                             currentTask := None \<rparr>)))"
  using assms by (simp add: parse_line_def Let_def)

lemma parse_line_task:
  assumes "\<not> is_week_header l" "\<not> is_day_header l" "currentDay st = Some d" "is_task_line l"
  shows "parse_line st l =
           (case match_task l of
              None \<Rightarrow> Inl TypeError
            | Some (i, s) \<Rightarrow>
                Inr ((case currentTask (flushBuffer st) of
                        None \<Rightarrow> flushBuffer st
                      | Some t \<Rightarrow>
                          (flushBuffer st)
                            \<lparr> currentDay := map_option (\<lambda>d. d \<lparr> tasks := tasks d @ [t] \<rparr>)
                                               (currentDay (flushBuffer st)) \<rparr>)
                      \<lparr> currentTask := Some \<lparr> trackingId = i, summary = s, t_content = [] \<rparr> \<rparr>))"
  using assms by (simp add: parse_line_def Let_def)

lemma parse_line_plain:
  assumes "\<not> is_week_header l" "\<not> is_day_header l" "currentDay st = None \<or> \<not> is_task_line l"
  shows "parse_line st l = Inr (st \<lparr> buffer := buffer st @ [l] \<rparr>)"
  using assms by (auto simp: parse_line_def Let_def)

lemma parse_line_inv:
  assumes "parse_line st l = Inr st'" "parser_inv st"
  shows "parser_inv st'"
proof -
  let ?f = "flushBuffer st"
  have f: "parser_inv ?f" using assms(2) by (rule parser_inv_flush)
  consider (week) "is_week_header l"
    | (day) "\<not> is_week_header l" "is_day_header l"
    | (task) d where "\<not> is_week_header l" "\<not> is_day_header l" "currentDay st = Some d" "is_task_line l"
    | (plain) "\<not> is_week_header l" "\<not> is_day_header l" "currentDay st = None \<or> \<not> is_task_line l"
    by (cases "currentDay st") auto
  then show ?thesis
  proof cases
    case week
    from assms(1) f show ?thesis
      unfolding parse_line_week [OF week]
      by (cases "currentWeek ?f")
         (auto simp: parser_inv_def headers_first_snoc_week numbered_def is_week_def)
  next
    case day
    from assms(1) f show ?thesis
      unfolding parse_line_day [OF day]
      by (cases "currentWeek ?f"; cases "currentDay ?f")
         (auto simp: parser_inv_def)
  next
    case task
    have cd: "currentDay ?f \<noteq> None"
      using task(3) by (simp add: flushBuffer_fields)
    from assms(1) f cd show ?thesis
      unfolding parse_line_task [OF task]
      by (cases "currentWeek ?f"; cases "currentDay ?f"; cases "currentTask ?f";
          cases "match_task l")
         (auto simp: parser_inv_def)
  next
    case plain
    from assms(1,2) show ?thesis
      unfolding parse_line_plain [OF plain]
      by (cases "currentWeek st"; cases "currentDay st") (auto simp: parser_inv_def)
  qed
qed


lemma parse_lines_inv:
  "parse_lines st ls = Inr st' \<Longrightarrow> parser_inv st \<Longrightarrow> parser_inv st'"
proof (induction ls arbitrary: st)
  case Nil
  then show ?case by simp
next
  case (Cons l ls)
  then obtain st1 where 1: "parse_line st l = Inr st1" and 2: "parse_lines st1 ls = Inr st'"
    by (auto split: sum.splits)
  from Cons.IH [OF 2 parse_line_inv [OF 1 Cons.prems(2)]] show ?case .
qed

lemma finish_inv:
  assumes "finish st = Inr secs" "parser_inv st"
  shows "headers_first secs \<and> list_all numbered secs"
proof -
  have f: "parser_inv (flushBuffer st)" using assms(2) by (rule parser_inv_flush)
  from assms(1) f show ?thesis
    by (cases "currentWeek (flushBuffer st)"; cases "currentDay (flushBuffer st)";
        cases "currentTask (flushBuffer st)")
       (auto simp: finish_def Let_def parser_inv_def headers_first_snoc_week numbered_def)
qed

lemma parseWorklog_inv:
  assumes "parseWorklog text = Inr secs"
  shows "headers_first secs" "list_all numbered secs"
proof -
  from assms obtain st where "parse_lines init_pstate (split_lines text) = Inr st"
    and "finish st = Inr secs"
    by (auto simp: parseWorklog_def split: sum.splits)
  with parse_lines_inv [OF _ parser_inv_init] finish_inv
  show "headers_first secs" "list_all numbered secs" by blast+
qed

section \<open>The order of weeks and days\<close>

text \<open>Finding in arrays\<close>

lemma find_index_Some:
  "find_index P xs = Some i \<Longrightarrow> i < length xs \<and> P (xs ! i) \<and> (\<forall>j<i. \<not> P (xs ! j))"
proof (induction xs arbitrary: i)
  case Nil
  then show ?case by simp
next
  case (Cons x xs)
  show ?case
  proof (cases "P x")
    case True
    with Cons.prems show ?thesis by simp
  next
    case False
    with Cons.prems obtain k where k: "find_index P xs = Some k" "i = Suc k"
      by auto
    from Cons.IH [OF k(1)] False k(2) show ?thesis
      by (auto simp: less_Suc_eq_0_disj)
  qed
qed

lemma find_index_None: "find_index P xs = None \<longleftrightarrow> (\<forall>x\<in>set xs. \<not> P x)"
  by (induction xs) auto

lemma find_index_update:
  "find_index P xs = Some i \<Longrightarrow> P y \<Longrightarrow> find_index P (xs[i := y]) = Some i"
proof (induction xs arbitrary: i)
  case Nil
  then show ?case by simp
next
  case (Cons x xs)
  then show ?case
    by (cases i) (auto split: if_splits)
qed

lemma index_of_nth: "x \<in> set xs \<Longrightarrow> index_of x xs < length xs \<and> xs ! index_of x xs = x"
  by (induction xs) (auto simp: index_of_def)

lemma find_index_unique:
  assumes "x \<in> set xs" "P x" "\<And>y. y \<in> set xs \<Longrightarrow> P y \<Longrightarrow> y = x"
  shows "find_index P xs = Some (index_of x xs)"
  using assms(1,3)
proof (induction xs)
  case Nil
  then show ?case by simp
next
  case (Cons a xs)
  show ?case
  proof (cases "a = x")
    case True
    with assms(2) show ?thesis by (simp add: index_of_def)
  next
    case False
    with Cons.prems have na: "\<not> P a" and xin: "x \<in> set xs" by auto
    have "find_index P xs = Some (index_of x xs)"
      using Cons.IH [OF xin] Cons.prems(2) by simp
    moreover have "index_of x (a # xs) = Suc (index_of x xs)"
      using False by (simp add: index_of_def)
    ultimately show ?thesis using na by simp
  qed
qed

text \<open>Sorting the sections\<close>

lemma cmp_gt_header: "\<not> cmp_gt compareSections (Header h) x" "\<not> cmp_gt compareSections x (Header h)"
  by (cases x; simp add: cmp_gt_def compareSections_def)+

lemma foldl_insert_headers:
  assumes "list_all is_header hs"
  shows "foldl (\<lambda>acc x. insert_rev compareSections x acc) acc hs = rev hs @ acc"
  using assms
proof (induction hs arbitrary: acc)
  case Nil
  then show ?case by simp
next
  case (Cons h hs)
  from Cons.prems obtain ls where h: "h = Header ls"
    by (cases h) (auto simp: is_header_def)
  have "insert_rev compareSections h acc = h # acc"
    by (cases acc) (simp_all add: h cmp_gt_header)
  with Cons show ?case by simp
qed

lemma js_sort_headers_first:
  assumes "list_all is_header hs"
  shows "js_sort compareSections (hs @ ws) = hs @ js_sort compareSections ws"
proof (cases "hs = []")
  case True
  then show ?thesis by simp
next
  case False
  from assms False have "is_header (last hs)"
    by (simp add: list_all_iff)
  then obtain ls where "hd (rev hs) = Header ls"
    by (cases "last hs") (auto simp: hd_rev is_header_def)
  then have "foldl (\<lambda>acc x. insert_rev compareSections x acc) ([] @ rev hs) ws
               = foldl (\<lambda>acc x. insert_rev compareSections x acc) [] ws @ rev hs"
    using False by (intro foldl_insert_rev_append) (simp_all add: cmp_gt_header)
  then show ?thesis
    using foldl_insert_headers [OF assms, of "[]"] by (simp add: js_sort_def)
qed

lemma cmp_gt_weeks:
  assumes "is_week a" "numbered a" "is_week b" "numbered b"
  shows "cmp_gt compareSections a b \<longleftrightarrow> week_key a < week_key b"
  using assms
  by (cases a; cases b)
     (auto simp: is_week_def numbered_def cmp_gt_def compareSections_def week_key_def)

lemma weeks_of_numbered:
  assumes "list_all is_week S" "list_all numbered S"
  shows "map weekNumber (weeks_of S) = map (\<lambda>s. Some (week_key s)) S"
  using assms
proof (induction S)
  case Nil
  then show ?case by simp
next
  case (Cons s S)
  then show ?case
    by (cases s) (auto simp: is_week_def numbered_def week_key_def)
qed

lemma js_sort_weeks_descending:
  assumes "list_all is_week W" "list_all numbered W"
  shows "weeks_descending (weeks_of (js_sort compareSections W))"
proof -
  let ?S = "js_sort compareSections W"
  have s: "sorted_wrt (\<lambda>a b. week_key b \<le> week_key a) ?S"
    using assms by (intro js_sort_sorted cmp_gt_weeks) (auto simp: list_all_iff)
  have "list_all is_week ?S" "list_all numbered ?S"
    using assms by (simp_all add: list_all_iff set_js_sort)
  from weeks_of_numbered [OF this] s show ?thesis
    by (simp add: weeks_descending_def sorted_wrt_map desc_def)
qed

lemma weeks_of_append: "weeks_of (xs @ ys) = weeks_of xs @ weeks_of ys"
  by (induction xs rule: weeks_of.induct) simp_all

lemma weeks_of_headers: "list_all is_header hs \<Longrightarrow> weeks_of hs = []"
  by (induction hs rule: weeks_of.induct) (simp_all add: is_header_def)

lemma weeks_of_update:
  assumes "i < length xs" "xs ! i = Week w" "weekNumber w' = weekNumber w"
  shows "map weekNumber (weeks_of (xs[i := Week w'])) = map weekNumber (weeks_of xs)"
  using assms
proof (induction xs arbitrary: i rule: weeks_of.induct)
  case 1
  then show ?case by simp
next
  case (2 ls secs)
  then show ?case by (cases i) simp_all
next
  case (3 v secs)
  then show ?case by (cases i) simp_all
qed

lemma filter_header_update:
  assumes "i < length xs" "xs ! i = Week w"
  shows "filter is_header (xs[i := Week w']) = filter is_header xs"
  using assms
proof (induction xs arbitrary: i)
  case Nil
  then show ?case by simp
next
  case (Cons x xs)
  then show ?case by (cases i) (auto simp: is_header_def)
qed

lemma week_lines_weeks_of:
  "concat (map week_lines (filter is_week secs)) = concat (map render_week (weeks_of secs))"
  by (induction secs rule: weeks_of.induct) (simp_all add: is_week_def week_lines_def)

text \<open>Sorting the days\<close>

lemma cmp_gt_days:
  assumes "date_value e (d_date a) \<noteq> None" "date_value e (d_date b) \<noteq> None"
  shows "cmp_gt (\<lambda>a b. compareDates e (d_date a) (d_date b)) a b \<longleftrightarrow> day_key e a < day_key e b"
  using assms by (auto simp: cmp_gt_def compareDates_def date_value_def day_key_def)

lemma js_sort_days_descending:
  assumes "list_all (\<lambda>d. date_value e (d_date d) \<noteq> None) ds"
  shows "days_descending e (js_sort (\<lambda>a b. compareDates e (d_date a) (d_date b)) ds)"
proof -
  let ?S = "js_sort (\<lambda>a b. compareDates e (d_date a) (d_date b)) ds"
  have s: "sorted_wrt (\<lambda>a b. day_key e b \<le> day_key e a) ?S"
    using assms by (intro js_sort_sorted cmp_gt_days) (auto simp: list_all_iff)
  have m: "map (\<lambda>d. date_value e (d_date d)) ?S = map (\<lambda>d. Some (day_key e d)) ?S"
    using assms by (auto simp: list_all_iff set_js_sort day_key_def)
  have "sorted_wrt desc (map (\<lambda>d. Some (day_key e d)) ?S)"
    using s by (simp add: sorted_wrt_map desc_def)
  then show ?thesis
    unfolding days_descending_def m .
qed

lemma days_descending_update:
  assumes "d_date d' = d_date (ds ! j)"
  shows "days_descending e (ds[j := d']) = days_descending e ds"
proof -
  have "map (\<lambda>d. date_value e (d_date d)) (ds[j := d']) = map (\<lambda>d. date_value e (d_date d)) ds"
  proof (cases "j < length ds")
    case True
    have "(map (\<lambda>d. date_value e (d_date d)) ds)[j := date_value e (d_date (ds ! j))]
          = map (\<lambda>d. date_value e (d_date d)) ds"
      using True by (intro list_update_same_conv [THEN iffD2]) simp_all
    with assms show ?thesis by (simp add: map_update)
  next
    case False
    then have "length ds \<le> j" by simp
    then show ?thesis by (simp only: list_update_beyond)
  qed
  then show ?thesis by (simp add: days_descending_def)
qed

text \<open>The two ways of each level of the update\<close>

lemma update_days_new:
  assumes "find_index (\<lambda>d. d_date d = dh) ds = None"
  shows "update_days e dh tid sm ws ds =
           (let sorted = js_sort (\<lambda>a b. compareDates e (d_date a) (d_date b)) (ds @ [new_day dh]);
                j = index_of (new_day dh) sorted in
            sorted[j := (new_day dh) \<lparr> tasks := update_tasks tid sm ws [] \<rparr>])"
proof -
  let ?S = "js_sort (\<lambda>a b. compareDates e (d_date a) (d_date b)) (ds @ [new_day dh])"
  have "new_day dh \<in> set ?S" by (simp add: set_js_sort)
  from index_of_nth [OF this] assms show ?thesis
    by (simp add: update_days_def Let_def new_day_def)
qed

lemma update_days_found:
  assumes "find_index (\<lambda>d. d_date d = dh) ds = Some j"
  shows "update_days e dh tid sm ws ds =
           ds[j := (ds ! j) \<lparr> tasks := update_tasks tid sm ws (tasks (ds ! j)) \<rparr>]"
  using assms by (simp add: update_days_def Let_def)

lemma update_days_descending:
  assumes "find_index (\<lambda>d. d_date d = dh) ds = None"
    and "list_all (\<lambda>d. date_value e (d_date d) \<noteq> None) ds"
    and "date_value e dh \<noteq> None"
  shows "days_descending e (update_days e dh tid sm ws ds)"
proof -
  let ?S = "js_sort (\<lambda>a b. compareDates e (d_date a) (d_date b)) (ds @ [new_day dh])"
  have in_S: "new_day dh \<in> set ?S" by (simp add: set_js_sort)
  have "days_descending e ?S"
    using assms(2,3) by (intro js_sort_days_descending) (simp add: new_day_def)
  moreover have "d_date ((new_day dh) \<lparr> tasks := update_tasks tid sm ws [] \<rparr>)
                 = d_date (?S ! index_of (new_day dh) ?S)"
    using index_of_nth [OF in_S] by simp
  ultimately show ?thesis
    unfolding update_days_new [OF assms(1)] Let_def
    by (simp only: days_descending_update)
qed

lemma is_target_week_Week: "is_target_week wn s \<Longrightarrow> \<exists>w. s = Week w \<and> weekNumber w = wn \<and> wn \<noteq> None"
  by (cases s) (auto simp: is_target_week_def)

lemma update_sections_found:
  assumes "find_index (is_target_week wn) secs = Some i"
  obtains w where "secs ! i = Week w" "weekNumber w = wn" "i < length secs"
    and "update_sections e wn wh dh tid sm ws secs
         = secs[i := Week (w \<lparr> days := update_days e dh tid sm ws (days w) \<rparr>)]"
proof -
  from find_index_Some [OF assms] have i: "i < length secs" "is_target_week wn (secs ! i)"
    by simp_all
  from is_target_week_Week [OF i(2)] obtain w where w: "secs ! i = Week w" "weekNumber w = wn"
    by blast
  have "update_sections e wn wh dh tid sm ws secs
         = secs[i := Week (w \<lparr> days := update_days e dh tid sm ws (days w) \<rparr>)]"
    using assms w by (simp add: update_sections_def Let_def)
  with w i(1) that show thesis by blast
qed

lemma update_sections_new:
  assumes "find_index (is_target_week wn) secs = None"
  shows "update_sections e wn wh dh tid sm ws secs =
           (let sorted = js_sort compareSections (secs @ [Week (new_week wh wn)]);
                i = index_of (Week (new_week wh wn)) sorted in
            sorted[i := Week ((new_week wh wn) \<lparr> days := update_days e dh tid sm ws [] \<rparr>)])"
proof -
  let ?S = "js_sort compareSections (secs @ [Week (new_week wh wn)])"
  have "Week (new_week wh wn) \<in> set ?S" by (simp add: set_js_sort)
  from index_of_nth [OF this] assms show ?thesis
    by (simp add: update_sections_def Let_def new_week_def)
qed

lemma target_days_found:
  assumes "find_index (is_target_week wn) xs = Some i" "xs ! i = Week w"
  shows "target_days wn xs = days w"
  using assms by (simp add: target_days_def)

lemma update_sections_shape:
  fixes e n wh dh tid sm ws secs
  defines "res \<equiv> update_sections e (Some n) wh dh tid sm ws secs"
  assumes hf: "headers_first secs" and nb: "list_all numbered secs"
  shows "\<exists>i w. find_index (is_target_week (Some n)) res = Some i \<and> i < length res
               \<and> res ! i = Week (w \<lparr> days := update_days e dh tid sm ws (target_days (Some n) secs) \<rparr>)
               \<and> weekNumber w = Some n
               \<and> filter is_header res = filter is_header secs
               \<and> (find_index (is_target_week (Some n)) secs = None \<longrightarrow>
                    weeks_descending (weeks_of res))"
proof (cases "find_index (is_target_week (Some n)) secs")
  case (Some i)
  from update_sections_found [OF Some, of e wh dh tid sm ws]
  obtain w where w: "secs ! i = Week w" "weekNumber w = Some n" "i < length secs"
    and r: "res = secs[i := Week (w \<lparr> days := update_days e dh tid sm ws (days w) \<rparr>)]"
    unfolding res_def by blast
  let ?w' = "w \<lparr> days := update_days e dh tid sm ws (days w) \<rparr>"
  have t: "is_target_week (Some n) (Week ?w')"
    using w(2) by (simp add: is_target_week_def)
  have "find_index (is_target_week (Some n)) res = Some i"
    unfolding r using Some t by (rule find_index_update)
  moreover have "res ! i = Week ?w'" "i < length res"
    using w(3) by (simp_all add: r)
  moreover have "filter is_header res = filter is_header secs"
    unfolding r using w(3,1) by (rule filter_header_update)
  moreover have "target_days (Some n) secs = days w"
    using Some w(1) by (rule target_days_found)
  ultimately show ?thesis
    using Some w(2) by auto
next
  case None
  let ?nw = "new_week wh (Some n)"
  let ?H = "filter is_header secs" and ?W = "filter is_week secs"
  let ?S' = "js_sort compareSections (?W @ [Week ?nw])"
  let ?S = "js_sort compareSections (secs @ [Week ?nw])"
  let ?i = "index_of (Week ?nw) ?S"
  let ?w' = "?nw \<lparr> days := update_days e dh tid sm ws [] \<rparr>"
  have r: "res = ?S[?i := Week ?w']"
    unfolding res_def update_sections_new [OF None] Let_def ..
  have "secs = ?H @ ?W"
    using hf by (simp only: headers_first_def)
  then have "secs @ [Week ?nw] = ?H @ (?W @ [Week ?nw])"
    by (metis append_assoc)
  then have "?S = js_sort compareSections (?H @ (?W @ [Week ?nw]))"
    by (rule arg_cong)
  also have "\<dots> = ?H @ ?S'"
    by (rule js_sort_headers_first) (simp add: list_all_iff)
  finally have S: "?S = ?H @ ?S'" .
  have in_S: "Week ?nw \<in> set ?S" by (simp add: set_js_sort)
  note i = index_of_nth [OF in_S]
  have tn: "is_target_week (Some n) (Week ?nw)" "is_target_week (Some n) (Week ?w')"
    by (simp_all add: is_target_week_def new_week_def)
  have "find_index (is_target_week (Some n)) ?S = Some ?i"
  proof (rule find_index_unique [where P = "is_target_week (Some n)", OF in_S tn(1)])
    fix y assume "y \<in> set ?S" "is_target_week (Some n) y"
    with None show "y = Week ?nw"
      by (auto simp: set_js_sort find_index_None)
  qed
  then have f: "find_index (is_target_week (Some n)) res = Some ?i"
    unfolding r using tn(2) by (rule find_index_update)
  have at: "res ! ?i = Week ?w'" "?i < length res"
    using i by (simp_all add: r)
  have fh: "filter is_header res = filter is_header secs"
  proof -
    have "filter is_header res = filter is_header ?S"
      unfolding r using i by (intro filter_header_update) simp_all
    also have "\<dots> = ?H @ filter is_header ?S'"
      unfolding S by simp
    also have "filter is_header ?S' = []"
    proof -
      have "is_week s \<Longrightarrow> \<not> is_header s" for s
        by (cases s) (simp_all add: is_week_def is_header_def)
      then show ?thesis
        by (auto simp: filter_empty_conv set_js_sort is_week_def)
    qed
    finally show ?thesis by simp
  qed
  have wk: "list_all is_week (?W @ [Week ?nw])" "list_all numbered (?W @ [Week ?nw])"
    using nb by (auto simp: list_all_iff is_week_def numbered_def new_week_def)
  have "map weekNumber (weeks_of res) = map weekNumber (weeks_of ?S)"
    unfolding r using i by (intro weeks_of_update) simp_all
  also have "weeks_of ?S = weeks_of ?S'"
    unfolding S by (simp add: weeks_of_append weeks_of_headers list_all_iff)
  finally have "weeks_descending (weeks_of res)"
    using js_sort_weeks_descending [OF wk] by (simp add: weeks_descending_def)
  moreover have "target_days (Some n) secs = []"
    using None by (simp add: target_days_def)
  moreover have "weekNumber ?nw = Some n" by (simp add: new_week_def)
  ultimately show ?thesis
    using f at fh by (intro exI [of _ ?i] exI [of _ ?nw]) simp
qed

text \<open>
  Claim C2. Take the document parsed from any worklog text and log an entry for week
  \<open>n\<close> and day \<open>dh\<close>. If no week section had the number \<open>n\<close> (a new one is made), the
  week sections of the result are in descending order of week number. If the week had no
  day section with the date \<open>dh\<close> (a new one is made), and the dates of its days and
  \<open>dh\<close> are valid dates, the days of that week are in descending order of date. In
  both cases the lines rebuilt are the lines of the header blocks, as parsed, followed by
  the lines of the week sections in their order.
\<close>

theorem update_keeps_order:
  assumes "parseWorklog text = Inr secs"
    and "res = update_sections e (Some n) wh dh tid sm ws secs"
  shows "(find_index (is_target_week (Some n)) secs = None \<longrightarrow> weeks_descending (weeks_of res))
       \<and> (find_index (\<lambda>d. d_date d = dh) (target_days (Some n) secs) = None
            \<and> list_all (\<lambda>d. date_value e (d_date d) \<noteq> None) (target_days (Some n) secs)
            \<and> date_value e dh \<noteq> None
          \<longrightarrow> days_descending e (target_days (Some n) res))
       \<and> output_lines res
           = concat (map header_lines (filter is_header secs))
             @ concat (map render_week (weeks_of res))"
proof -
  note inv = parseWorklog_inv [OF assms(1)]
  have "\<exists>i w. find_index (is_target_week (Some n)) res = Some i \<and> i < length res
               \<and> res ! i = Week (w \<lparr> days := update_days e dh tid sm ws (target_days (Some n) secs) \<rparr>)
               \<and> weekNumber w = Some n
               \<and> filter is_header res = filter is_header secs
               \<and> (find_index (is_target_week (Some n)) secs = None \<longrightarrow>
                    weeks_descending (weeks_of res))"
    unfolding assms(2) using inv by (rule update_sections_shape)
  then obtain i and w :: week
    where all: "find_index (is_target_week (Some n)) res = Some i \<and> i < length res
               \<and> res ! i = Week (w \<lparr> days := update_days e dh tid sm ws (target_days (Some n) secs) \<rparr>)
               \<and> weekNumber w = Some n
               \<and> filter is_header res = filter is_header secs
               \<and> (find_index (is_target_week (Some n)) secs = None \<longrightarrow>
                    weeks_descending (weeks_of res))"
    by (elim exE)
  from all have f: "find_index (is_target_week (Some n)) res = Some i"
    and at: "res ! i = Week (w \<lparr> days := update_days e dh tid sm ws (target_days (Some n) secs) \<rparr>)"
    and fh: "filter is_header res = filter is_header secs"
    and wd: "find_index (is_target_week (Some n)) secs = None \<longrightarrow> weeks_descending (weeks_of res)"
    by simp_all
  have td: "target_days (Some n) res = update_days e dh tid sm ws (target_days (Some n) secs)"
    using target_days_found [OF f at] by simp
  have "output_lines res
           = concat (map header_lines (filter is_header secs))
             @ concat (map render_week (weeks_of res))"
    by (simp add: output_lines_def fh week_lines_weeks_of)
  with wd show ?thesis
    unfolding td using update_days_descending by blast
qed

theorem update_keeps_order_witness:
  "parseWorklog (''# T'' @ [LF] @ ''## Week 3'' @ [LF] @ ''## Week 5'' @ [LF] @ ''### 2026/01/28'' @ [LF])
     = Inr [Header [''# T''],
            Week \<lparr> w_header = ''## Week 3'', weekNumber = Some 3, w_content = [], days = [] \<rparr>,
            Week \<lparr> w_header = ''## Week 5'', weekNumber = Some 5, w_content = [],
                   days = [\<lparr> d_header = ''### 2026/01/28'', d_date = ''2026/01/28'',
                            d_content = [[]], tasks = [] \<rparr>] \<rparr>]
   \<and> map weekNumber (weeks_of (update_sections
           \<lparr> tza = 0, now = 0, parse_other = (\<lambda>s. None), worklogsPath = [''w''], prettier = Some \<rparr>
           (Some 4) ''Week 4'' ''2026/01/21'' ''PROJ-2'' ''Sum'' [''x'']
           [Header [''# T''],
            Week \<lparr> w_header = ''## Week 3'', weekNumber = Some 3, w_content = [], days = [] \<rparr>,
            Week \<lparr> w_header = ''## Week 5'', weekNumber = Some 5, w_content = [],
                   days = [\<lparr> d_header = ''### 2026/01/28'', d_date = ''2026/01/28'',
                            d_content = [[]], tasks = [] \<rparr>] \<rparr>]))
     = [Some 5, Some 4, Some 3]
   \<and> weeks_descending (weeks_of (update_sections
           \<lparr> tza = 0, now = 0, parse_other = (\<lambda>s. None), worklogsPath = [''w''], prettier = Some \<rparr>
           (Some 4) ''Week 4'' ''2026/01/21'' ''PROJ-2'' ''Sum'' [''x'']
           [Header [''# T''],
            Week \<lparr> w_header = ''## Week 3'', weekNumber = Some 3, w_content = [], days = [] \<rparr>,
            Week \<lparr> w_header = ''## Week 5'', weekNumber = Some 5, w_content = [],
                   days = [\<lparr> d_header = ''### 2026/01/28'', d_date = ''2026/01/28'',
                            d_content = [[]], tasks = [] \<rparr>] \<rparr>]))
   \<and> days_descending
         \<lparr> tza = 0, now = 0, parse_other = (\<lambda>s. None), worklogsPath = [''w''], prettier = Some \<rparr>
         (target_days (Some 4) (update_sections
           \<lparr> tza = 0, now = 0, parse_other = (\<lambda>s. None), worklogsPath = [''w''], prettier = Some \<rparr>
           (Some 4) ''Week 4'' ''2026/01/21'' ''PROJ-2'' ''Sum'' [''x'']
           [Header [''# T''],
            Week \<lparr> w_header = ''## Week 3'', weekNumber = Some 3, w_content = [], days = [] \<rparr>,
            Week \<lparr> w_header = ''## Week 5'', weekNumber = Some 5, w_content = [],
                   days = [\<lparr> d_header = ''### 2026/01/28'', d_date = ''2026/01/28'',
                            d_content = [[]], tasks = [] \<rparr>] \<rparr>]))"
proof -
  let ?e = "\<lparr> tza = 0, now = 0, parse_other = (\<lambda>s. None), worklogsPath = [''w''], prettier = Some \<rparr>"
  let ?text = "''# T'' @ [LF] @ ''## Week 3'' @ [LF] @ ''## Week 5'' @ [LF] @ ''### 2026/01/28'' @ [LF]"
  let ?secs = "[Header [''# T''],
            Week \<lparr> w_header = ''## Week 3'', weekNumber = Some 3, w_content = [], days = [] \<rparr>,
            Week \<lparr> w_header = ''## Week 5'', weekNumber = Some 5, w_content = [],
                   days = [\<lparr> d_header = ''### 2026/01/28'', d_date = ''2026/01/28'',
                            d_content = [[]], tasks = [] \<rparr>] \<rparr>]"
  let ?res = "update_sections ?e (Some 4) ''Week 4'' ''2026/01/21'' ''PROJ-2'' ''Sum'' [''x''] ?secs"
  have h1: "parseWorklog ?text = Inr ?secs" by code_simp
  have a1: "find_index (is_target_week (Some 4)) ?secs = None" by code_simp
  have a2: "find_index (\<lambda>d. d_date d = ''2026/01/21'') (target_days (Some 4) ?secs) = None
            \<and> list_all (\<lambda>d. date_value ?e (d_date d) \<noteq> None) (target_days (Some 4) ?secs)
            \<and> date_value ?e ''2026/01/21'' \<noteq> None"
    by code_simp
  have n: "map weekNumber (weeks_of ?res) = [Some 5, Some 4, Some 3]" by code_simp
  from update_keeps_order [where e = ?e and n = 4 and wh = "''Week 4''" and dh = "''2026/01/21''"
      and tid = "''PROJ-2''" and sm = "''Sum''" and ws = "[''x'']", OF h1 refl]
    a1 a2
  have "weeks_descending (weeks_of ?res) \<and> days_descending ?e (target_days (Some 4) ?res)"
    by blast
  with h1 n show ?thesis by blast
qed

section \<open>Rebuilding the text of a parsed document\<close>

lemma starts_with_append: "starts_with p l \<Longrightarrow> p @ drop (length p) l = l"
  by (induction p l rule: starts_with.induct) auto

lemma match_id_append: "match_id r = Some (i, rest) \<Longrightarrow> r = i @ rest"
proof -
  assume a: "match_id r = Some (i, rest)"
  obtain c r' where d: "dropWhile is_upper r = c # r'" "c = CHR ''-''"
    and i: "i = takeWhile is_upper r @ ''-'' @ takeWhile is_digit r'"
    and rest: "rest = dropWhile is_digit r'"
    using a by (auto simp: match_id_def Let_def split: if_splits list.splits)
  have "r = takeWhile is_upper r @ dropWhile is_upper r" by simp
  also have "\<dots> = takeWhile is_upper r @ c # (takeWhile is_digit r' @ dropWhile is_digit r')"
    by (simp add: d)
  finally show ?thesis using d(2) i rest by simp
qed

lemma match_task_line: "match_task l = Some (i, s) \<Longrightarrow> ''- '' @ i @ '': '' @ s = l"
proof -
  assume a: "match_task l = Some (i, s)"
  then have sw: "starts_with ''- '' l"
    by (auto simp: match_task_def split: if_splits)
  from a sw obtain rest where m: "match_id (drop 2 l) = Some (i, rest)" and r: "rest = '': '' @ s"
    by (auto simp: match_task_def split: if_splits option.splits list.splits)
  have "length ''- '' = 2" by simp
  with starts_with_append [OF sw] have "''- '' @ drop 2 l = l"
    by (simp only:)
  moreover have "drop 2 l = i @ '': '' @ s"
    using match_id_append [OF m] r by simp
  ultimately show ?thesis by simp
qed

lemma output_lines_snoc_week:
  "output_lines (xs @ [Week w]) = output_lines xs @ render_week w"
  by (simp add: output_lines_def is_header_def is_week_def week_lines_def)

lemma output_lines_snoc_header:
  "filter is_week xs = [] \<Longrightarrow> output_lines (xs @ [Header b]) = output_lines xs @ b"
  by (simp add: output_lines_def is_header_def is_week_def header_lines_def)

lemma render_week_content:
  "days w = [] \<Longrightarrow> render_week (w \<lparr> w_content := w_content w @ b \<rparr>) = render_week w @ b"
  by (simp add: render_week_def)

lemma render_week_days:
  "render_week (w \<lparr> days := days w @ [d] \<rparr>) = render_week w @ render_day d"
  by (simp add: render_week_def)

lemma render_day_content:
  "tasks d = [] \<Longrightarrow> render_day (d \<lparr> d_content := d_content d @ b \<rparr>) = render_day d @ b"
  by (simp add: render_day_def)

lemma render_day_tasks:
  "render_day (d \<lparr> tasks := tasks d @ [t] \<rparr>) = render_day d @ render_task t"
  by (simp add: render_day_def)

lemma render_task_content:
  "render_task (t \<lparr> t_content := t_content t @ b \<rparr>) = render_task t @ b"
  by (simp add: render_task_def)

lemmas render_snoc = render_week_content render_week_days render_day_content render_day_tasks
  render_task_content output_lines_snoc_week output_lines_snoc_header

lemma parse_line_out_week:
  assumes "is_week_header l" "parser_inv st" "currentDay st = None"
  shows "\<exists>st'. parse_line st l = Inr st' \<and> out_state st' = out_state st @ [[], l]
               \<and> currentDay st' = None \<and> currentTask st' = None"
  unfolding parse_line_week [OF assms(1)] using assms(2,3)
  by (cases "currentWeek st")
     (auto simp: parser_inv_def out_state_def flushBuffer_fields render_snoc render_week_def)

lemma parse_line_out_day:
  assumes "\<not> is_week_header l" "is_day_header l" "parser_inv st" "currentTask st = None"
    "parse_line st l = Inr st'"
  shows "out_state st' = out_state st @ [[], l] \<and> currentDay st' \<noteq> None \<and> currentTask st' = None"
  using assms(5,3,4) unfolding parse_line_day [OF assms(1,2)]
  by (cases "currentWeek st"; cases "currentDay st")
     (auto simp: parser_inv_def out_state_def flushBuffer_fields render_snoc render_day_def)

lemma parse_line_out_task:
  assumes "\<not> is_week_header l" "\<not> is_day_header l" "currentDay st = Some d" "is_task_line l"
    "parser_inv st" "parse_line st l = Inr st'"
  shows "out_state st' = out_state st @ [[], l] \<and> currentDay st' \<noteq> None \<and> currentTask st' \<noteq> None"
proof -
  from assms(6) obtain i s where m: "match_task l = Some (i, s)"
    unfolding parse_line_task [OF assms(1-4)] by (auto split: option.splits)
  note ml = match_task_line [OF m]
  show ?thesis
    using assms(6,5,3) ml unfolding parse_line_task [OF assms(1-4)] m
    by (cases "currentWeek st"; cases "currentTask st")
       (auto simp: parser_inv_def out_state_def flushBuffer_fields render_snoc render_task_def)
qed

lemma parse_line_out_plain:
  assumes "\<not> is_week_header l" "\<not> is_day_header l" "currentDay st = None \<or> \<not> is_task_line l"
  shows "\<exists>st'. parse_line st l = Inr st' \<and> out_state st' = out_state st @ [l]
               \<and> currentDay st' = currentDay st \<and> currentTask st' = currentTask st"
  unfolding parse_line_plain [OF assms]
  by (simp add: out_state_def)


lemma parse_lines_out:
  assumes "parse_lines st ls = Inr st'" "parser_inv st"
    and "no_drop (currentDay st \<noteq> None) (currentTask st \<noteq> None) ls"
  shows "out_state st' = out_state st @ spaced (currentDay st \<noteq> None) ls"
  using assms
proof (induction ls arbitrary: st)
  case Nil
  then show ?case by simp
next
  case (Cons l ls)
  then obtain st1 where 1: "parse_line st l = Inr st1" and 2: "parse_lines st1 ls = Inr st'"
    by (auto split: sum.splits)
  note inv1 = parse_line_inv [OF 1 Cons.prems(2)]
  consider (week) "is_week_header l"
    | (day) "\<not> is_week_header l" "is_day_header l"
    | (task) d where "\<not> is_week_header l" "\<not> is_day_header l" "currentDay st = Some d" "is_task_line l"
    | (plain) "\<not> is_week_header l" "\<not> is_day_header l" "currentDay st = None \<or> \<not> is_task_line l"
    by (cases "currentDay st") auto
  then show ?case
  proof cases
    case week
    with Cons.prems(3) have nd: "currentDay st = None" "no_drop False False ls"
      by simp_all
    from parse_line_out_week [OF week Cons.prems(2) nd(1)] 1
    have o: "out_state st1 = out_state st @ [[], l]" "currentDay st1 = None" "currentTask st1 = None"
      by auto
    from Cons.IH [OF 2 inv1] nd(2) o week nd(1) show ?thesis by simp
  next
    case day
    with Cons.prems(3) have nd: "currentTask st = None" "no_drop True False ls"
      by simp_all
    from parse_line_out_day [OF day Cons.prems(2) nd(1) 1]
    have o: "out_state st1 = out_state st @ [[], l]" "currentDay st1 \<noteq> None" "currentTask st1 = None"
      by auto
    from Cons.IH [OF 2 inv1] nd(2) o day show ?thesis by simp
  next
    case task
    with Cons.prems(3) have nd: "no_drop True True ls"
      by simp
    from parse_line_out_task [OF task Cons.prems(2) 1]
    have o: "out_state st1 = out_state st @ [[], l]" "currentDay st1 \<noteq> None" "currentTask st1 \<noteq> None"
      by auto
    from Cons.IH [OF 2 inv1] nd o task show ?thesis by simp
  next
    case plain
    with Cons.prems(3) have nd: "no_drop (currentDay st \<noteq> None) (currentTask st \<noteq> None) ls"
      by auto
    from parse_line_out_plain [OF plain] 1
    have o: "out_state st1 = out_state st @ [l]" "currentDay st1 = currentDay st"
      "currentTask st1 = currentTask st"
      by auto
    from Cons.IH [OF 2 inv1] nd o plain show ?thesis by auto
  qed
qed

lemma finish_out:
  assumes "finish st = Inr secs" "parser_inv st"
  shows "output_lines secs = out_state st"
  using assms
  by (cases "currentWeek st"; cases "currentDay st"; cases "currentTask st")
     (auto simp: finish_def Let_def parser_inv_def out_state_def flushBuffer_fields render_snoc)

lemma split_lines_not_Nil: "split_lines s \<noteq> []"
  by (induction s) (auto split: list.splits)

lemma split_lines_no_LF: "l \<in> set (split_lines s) \<Longrightarrow> LF \<notin> set l"
proof (induction s arbitrary: l)
  case Nil
  then show ?case by simp
next
  case (Cons c s)
  show ?case
  proof (cases "c = LF")
    case True
    with Cons show ?thesis by auto
  next
    case False
    obtain m ms where ms: "split_lines s = m # ms"
      using split_lines_not_Nil [of s] by (cases "split_lines s") auto
    with Cons False show ?thesis by auto
  qed
qed

lemma split_lines_append_line:
  assumes "LF \<notin> set l"
  shows "split_lines (l @ LF # s) = l # split_lines s"
  using assms
proof (induction l)
  case Nil
  then show ?case by simp
next
  case (Cons c l)
  then show ?case by auto
qed

lemma split_lines_single: "LF \<notin> set l \<Longrightarrow> split_lines l = [l]"
  by (induction l) auto

lemma split_join_lines:
  assumes "xs \<noteq> []" "\<forall>l\<in>set xs. LF \<notin> set l"
  shows "split_lines (join_lines xs) = xs"
  using assms
proof (induction xs rule: join_lines.induct)
  case 1
  then show ?case by simp
next
  case (2 l)
  then show ?case by (simp add: split_lines_single)
next
  case (3 l m ls)
  then show ?case by (simp add: split_lines_append_line)
qed

lemma join_lines_snoc_blank: "xs \<noteq> [] \<Longrightarrow> join_lines (xs @ [[]]) = join_lines xs @ [LF]"
  by (induction xs rule: join_lines.induct) simp_all

lemma split_lines_render_lines:
  assumes "xs \<noteq> []" "\<forall>l\<in>set xs. LF \<notin> set l"
  shows "split_lines (join_lines xs @ [LF]) = xs @ [[]]"
proof -
  have "split_lines (join_lines (xs @ [[]])) = xs @ [[]]"
    using assms by (intro split_join_lines) auto
  then show ?thesis
    using assms(1) by (simp add: join_lines_snoc_blank)
qed

lemma set_spaced: "set (spaced b ls) \<subseteq> insert [] (set ls)"
  by (induction ls arbitrary: b) auto

lemma spaced_not_Nil: "ls \<noteq> [] \<Longrightarrow> spaced b ls \<noteq> []"
  by (cases ls) auto

lemma filter_spaced: "filter (\<lambda>l. l \<noteq> []) (spaced b ls) = filter (\<lambda>l. l \<noteq> []) ls"
  by (induction ls arbitrary: b) auto

lemma out_state_init: "out_state init_pstate = []"
  by (simp add: out_state_def init_pstate_def output_lines_def)

text \<open>
  Claim C1, as amended. For every worklog text that the parser accepts and in which no
  week header follows a day header and no day header follows a task line of its day (so
  that the parser closes every node it opened), rebuilding the parsed document gives the
  text with an empty line put before every week header, day header and task line of a
  day, and a line feed added at the end. The two texts have the same non-empty lines in
  the same order.
\<close>

theorem render_parse_spaced:
  assumes "parseWorklog text = Inr secs"
    and "no_drop False False (split_lines text)"
  shows "render secs = join_lines (spaced False (split_lines text)) @ [LF]
         \<and> filter (\<lambda>l. l \<noteq> []) (split_lines (render secs))
             = filter (\<lambda>l. l \<noteq> []) (split_lines text)"
proof -
  let ?L = "split_lines text"
  from assms(1) obtain st where p: "parse_lines init_pstate ?L = Inr st" and f: "finish st = Inr secs"
    by (auto simp: parseWorklog_def split: sum.splits)
  have cd: "currentDay init_pstate = None" "currentTask init_pstate = None"
    by (simp_all add: init_pstate_def)
  have "out_state st = out_state init_pstate @ spaced (currentDay init_pstate \<noteq> None) ?L"
    using p parser_inv_init assms(2) by (intro parse_lines_out) (simp_all add: cd)
  then have o: "output_lines secs = spaced False ?L"
    using finish_out [OF f parse_lines_inv [OF p parser_inv_init]]
    by (simp add: out_state_init cd)
  have ne: "spaced False ?L \<noteq> []"
    using split_lines_not_Nil by (rule spaced_not_Nil)
  have nl: "\<forall>l\<in>set (spaced False ?L). LF \<notin> set l"
    using set_spaced [of False ?L] split_lines_no_LF [of _ "text"] by auto
  from split_lines_render_lines [OF ne nl] show ?thesis
    by (simp add: render_def o filter_spaced)
qed

theorem render_parse_spaced_witness:
  "parseWorklog ''# T\<newline>\<newline>## Week 5\<newline>\<newline>### 2026/01/28\<newline>\<newline>- PROJ-1: S\<newline>  - a\<newline>''
     = Inr [Header [''# T'', ''''],
            Week \<lparr> w_header = ''## Week 5'', weekNumber = Some 5, w_content = [''''],
                   days = [\<lparr> d_header = ''### 2026/01/28'', d_date = ''2026/01/28'',
                            d_content = [''''],
                            tasks = [\<lparr> trackingId = ''PROJ-1'', summary = ''S'',
                                       t_content = [''  - a'', ''''] \<rparr>] \<rparr>] \<rparr>]
   \<and> no_drop False False
         (split_lines ''# T\<newline>\<newline>## Week 5\<newline>\<newline>### 2026/01/28\<newline>\<newline>- PROJ-1: S\<newline>  - a\<newline>'')
   \<and> spaced False
         (split_lines ''# T\<newline>\<newline>## Week 5\<newline>\<newline>### 2026/01/28\<newline>\<newline>- PROJ-1: S\<newline>  - a\<newline>'')
       = [''# T'', '''', '''', ''## Week 5'', '''', '''', ''### 2026/01/28'', '''', '''',
          ''- PROJ-1: S'', ''  - a'', '''']
   \<and> render [Header [''# T'', ''''],
            Week \<lparr> w_header = ''## Week 5'', weekNumber = Some 5, w_content = [''''],
                   days = [\<lparr> d_header = ''### 2026/01/28'', d_date = ''2026/01/28'',
                            d_content = [''''],
                            tasks = [\<lparr> trackingId = ''PROJ-1'', summary = ''S'',
                                       t_content = [''  - a'', ''''] \<rparr>] \<rparr>] \<rparr>]
       = join_lines [''# T'', '''', '''', ''## Week 5'', '''', '''', ''### 2026/01/28'', '''', '''',
                     ''- PROJ-1: S'', ''  - a'', ''''] @ [LF]
   \<and> filter (\<lambda>l. l \<noteq> [])
         (split_lines (render [Header [''# T'', ''''],
            Week \<lparr> w_header = ''## Week 5'', weekNumber = Some 5, w_content = [''''],
                   days = [\<lparr> d_header = ''### 2026/01/28'', d_date = ''2026/01/28'',
                            d_content = [''''],
                            tasks = [\<lparr> trackingId = ''PROJ-1'', summary = ''S'',
                                       t_content = [''  - a'', ''''] \<rparr>] \<rparr>] \<rparr>]))
       = [''# T'', ''## Week 5'', ''### 2026/01/28'', ''- PROJ-1: S'', ''  - a'']"
proof -
  let ?text = "''# T\<newline>\<newline>## Week 5\<newline>\<newline>### 2026/01/28\<newline>\<newline>- PROJ-1: S\<newline>  - a\<newline>''"
  let ?secs = "[Header [''# T'', ''''],
            Week \<lparr> w_header = ''## Week 5'', weekNumber = Some 5, w_content = [''''],
                   days = [\<lparr> d_header = ''### 2026/01/28'', d_date = ''2026/01/28'',
                            d_content = [''''],
                            tasks = [\<lparr> trackingId = ''PROJ-1'', summary = ''S'',
                                       t_content = [''  - a'', ''''] \<rparr>] \<rparr>] \<rparr>]"
  have h1: "parseWorklog ?text = Inr ?secs" by code_simp
  have h2: "no_drop False False (split_lines ?text)" by code_simp
  have s: "spaced False (split_lines ?text)
           = [''# T'', '''', '''', ''## Week 5'', '''', '''', ''### 2026/01/28'', '''', '''',
              ''- PROJ-1: S'', ''  - a'', '''']"
    by code_simp
  have n: "filter (\<lambda>l. l \<noteq> []) (split_lines ?text)
           = [''# T'', ''## Week 5'', ''### 2026/01/28'', ''- PROJ-1: S'', ''  - a'']"
    by code_simp
  from render_parse_spaced [OF h1 h2] h1 h2 show ?thesis
    unfolding s n by blast
qed

text \<open>
  Claim C1 as stated fails on every such text, here on a title, one week, one day and
  one task with one work item: the text rebuilt has three more empty lines and one more
  line feed at the end.
\<close>

theorem render_parse_counterexample:
  "parseWorklog ''# T\<newline>\<newline>## Week 5\<newline>\<newline>### 2026/01/28\<newline>\<newline>- PROJ-1: S\<newline>  - a\<newline>''
     = Inr [Header [''# T'', ''''],
            Week \<lparr> w_header = ''## Week 5'', weekNumber = Some 5, w_content = [''''],
                   days = [\<lparr> d_header = ''### 2026/01/28'', d_date = ''2026/01/28'',
                            d_content = [''''],
                            tasks = [\<lparr> trackingId = ''PROJ-1'', summary = ''S'',
                                       t_content = [''  - a'', ''''] \<rparr>] \<rparr>] \<rparr>]
   \<and> render [Header [''# T'', ''''],
            Week \<lparr> w_header = ''## Week 5'', weekNumber = Some 5, w_content = [''''],
                   days = [\<lparr> d_header = ''### 2026/01/28'', d_date = ''2026/01/28'',
                            d_content = [''''],
                            tasks = [\<lparr> trackingId = ''PROJ-1'', summary = ''S'',
                                       t_content = [''  - a'', ''''] \<rparr>] \<rparr>] \<rparr>]
       = ''# T\<newline>\<newline>\<newline>## Week 5\<newline>\<newline>\<newline>### 2026/01/28\<newline>\<newline>\<newline>- PROJ-1: S\<newline>  - a\<newline>\<newline>''
   \<and> ''# T\<newline>\<newline>\<newline>## Week 5\<newline>\<newline>\<newline>### 2026/01/28\<newline>\<newline>\<newline>- PROJ-1: S\<newline>  - a\<newline>\<newline>''
       \<noteq> ''# T\<newline>\<newline>## Week 5\<newline>\<newline>### 2026/01/28\<newline>\<newline>- PROJ-1: S\<newline>  - a\<newline>''"
  by code_simp

text \<open>
  The parse of a text with two days: the task of the first day is not in the document.
\<close>

lemma parseWorklog_drops_open_task:
  "parseWorklog ''## Week 5\<newline>### 2026/01/29\<newline>- PROJ-1: S\<newline>  - a\<newline>### 2026/01/28\<newline>- PROJ-2: R\<newline>  - b''
     = Inr [Week \<lparr> w_header = ''## Week 5'', weekNumber = Some 5, w_content = [],
                   days = [\<lparr> d_header = ''### 2026/01/29'', d_date = ''2026/01/29'',
                            d_content = [], tasks = [] \<rparr>,
                           \<lparr> d_header = ''### 2026/01/28'', d_date = ''2026/01/28'',
                            d_content = [],
                            tasks = [\<lparr> trackingId = ''PROJ-2'', summary = ''R'',
                                       t_content = [''  - b''] \<rparr>] \<rparr>] \<rparr>]"
  by code_simp

section \<open>Logging the same work twice\<close>

lemma plain_blank: "plain []" "plain_day []"
  by (simp_all add: plain_def plain_day_def is_week_header_def is_day_header_def is_task_line_def)

lemma work_line_plain_day: "LF \<notin> set w \<Longrightarrow> plain_day (work_line w)"
  by (simp add: plain_def plain_day_def work_line_def is_week_header_def is_day_header_def
      is_task_line_def LF_def)

lemma day_header_not_week:
  assumes "is_day_header l"
  shows "\<not> is_week_header l"
proof -
  from assms have "starts_with ''### '' l" by (simp add: is_day_header_def)
  from starts_with_append [OF this] obtain r where "l = ''### '' @ r" by metis
  then show ?thesis by (simp add: is_week_header_def)
qed

lemma match_task_task_line: "match_task l = Some (i, s) \<Longrightarrow> is_task_line l"
  by (auto simp: match_task_def is_task_line_def split: if_splits option.splits list.splits)

lemma match_id_no_LF: "match_id r = Some (i, rest) \<Longrightarrow> LF \<notin> set i"
proof -
  assume a: "match_id r = Some (i, rest)"
  have u: "LF \<notin> set (takeWhile is_upper xs)" for xs
    using set_takeWhileD [of LF is_upper xs] by (auto simp: is_upper_def LF_def)
  have g: "LF \<notin> set (takeWhile is_digit xs)" for xs
    using set_takeWhileD [of LF is_digit xs] by (auto simp: is_digit_def LF_def)
  have h: "LF \<noteq> CHR ''-''" by (simp add: LF_def)
  from a show ?thesis
    by (auto simp: match_id_def Let_def u g h split: if_splits list.splits)
qed

lemma match_task_no_LF:
  assumes "match_task l = Some (i, s)"
  shows "LF \<notin> set l"
proof -
  from assms have l: "''- '' @ i @ '': '' @ s = l" by (rule match_task_line)
  from assms have "\<exists>rest. match_id (drop 2 l) = Some (i, rest)"
    by (auto simp: match_task_def split: if_splits option.splits list.splits)
  then obtain rest where "match_id (drop 2 l) = Some (i, rest)" ..
  then have i: "LF \<notin> set i" by (rule match_id_no_LF)
  from assms have "list_all (\<lambda>c. c \<noteq> LF \<and> c \<noteq> CR) s"
    by (auto simp: match_task_def split: if_splits option.splits list.splits)
  then have s: "LF \<notin> set s" by (auto simp: list_all_iff)
  have "LF \<notin> set (''- '' @ i @ '': '' @ s)"
    using i s by (simp add: LF_def)
  then show ?thesis unfolding l .
qed

lemma wf_task_line:
  assumes "wf_task t"
  shows "is_task_line (task_line t)" "\<not> is_week_header (task_line t)"
    "\<not> is_day_header (task_line t)" "LF \<notin> set (task_line t)"
proof -
  from assms have m: "match_task (task_line t) = Some (trackingId t, summary t)"
    by (simp add: wf_task_def)
  from match_task_task_line [OF m] show "is_task_line (task_line t)" .
  from task_line_not_header [OF this]
  show "\<not> is_week_header (task_line t)" "\<not> is_day_header (task_line t)" by simp_all
  from match_task_no_LF [OF m] show "LF \<notin> set (task_line t)" .
qed

subsection \<open>Parsed documents are well formed\<close>

lemma wf_state_init: "wf_state init_pstate"
  by (simp add: wf_state_def init_pstate_def)

lemma wf_state_flush:
  assumes "wf_state st"
  shows "wf_state (flushBuffer st)"
  using assms
  by (cases "currentWeek st"; cases "currentDay st"; cases "currentTask st")
     (auto simp: wf_state_def flushBuffer_fields wf_sect_def wf_week_def wf_day_def wf_task_def
        task_line_def)

lemma wf_state_line:
  assumes "parse_line st l = Inr st'" "wf_state st" "LF \<notin> set l"
  shows "wf_state st'"
proof -
  let ?f = "flushBuffer st"
  have f: "wf_state ?f" using assms(2) by (rule wf_state_flush)
  have b: "buffer ?f = []" by (simp add: flushBuffer_fields)
  consider (week) "is_week_header l"
    | (day) "\<not> is_week_header l" "is_day_header l"
    | (task) d where "\<not> is_week_header l" "\<not> is_day_header l" "currentDay st = Some d" "is_task_line l"
    | (plain) "\<not> is_week_header l" "\<not> is_day_header l" "currentDay st = None \<or> \<not> is_task_line l"
    by (cases "currentDay st") auto
  then show ?thesis
  proof cases
    case week
    from assms(1) f b assms(3) week show ?thesis
      unfolding parse_line_week [OF week]
      by (cases "currentWeek ?f")
         (auto simp: wf_state_def wf_sect_def wf_week_def)
  next
    case day
    from assms(1) f b assms(3) day(2) show ?thesis
      unfolding parse_line_day [OF day]
      by (cases "currentWeek ?f"; cases "currentDay ?f")
         (auto simp: wf_state_def wf_week_def wf_day_def)
  next
    case task
    from assms(1) obtain i s where m: "match_task l = Some (i, s)"
      unfolding parse_line_task [OF task] by (auto split: option.splits)
    from match_task_line [OF m] m
    have wt: "wf_task \<lparr> trackingId = i, summary = s, t_content = [] \<rparr>"
      by (simp add: wf_task_def task_line_def)
    have cd: "currentDay ?f \<noteq> None"
      using task(3) by (simp add: flushBuffer_fields)
    from assms(1) f b wt cd show ?thesis
      unfolding parse_line_task [OF task] m
      by (cases "currentDay ?f"; cases "currentTask ?f")
         (auto simp: wf_state_def wf_day_def)
  next
    case plain
    from assms(1,2,3) plain show ?thesis
      unfolding parse_line_plain [OF plain]
      by (cases "currentDay st"; cases "currentTask st")
         (auto simp: wf_state_def plain_def plain_day_def)
  qed
qed

lemma wf_state_lines:
  assumes "parse_lines st ls = Inr st'" "wf_state st" "\<forall>l\<in>set ls. LF \<notin> set l"
  shows "wf_state st'"
  using assms
proof (induction ls arbitrary: st)
  case Nil
  then show ?case by simp
next
  case (Cons l ls)
  from Cons.prems(1) obtain st1 where 1: "parse_line st l = Inr st1"
    and 2: "parse_lines st1 ls = Inr st'"
    by (auto split: sum.splits)
  from wf_state_line [OF 1 Cons.prems(2)] Cons.prems(3) have "wf_state st1" by simp
  from Cons.IH [OF 2 this] Cons.prems(3) show ?case by simp
qed

lemma wf_state_finish:
  assumes "finish st = Inr secs" "wf_state st"
  shows "list_all (wf_sect wf_task) secs"
proof -
  let ?f = "flushBuffer st"
  have f: "wf_state ?f" using assms(2) by (rule wf_state_flush)
  from assms(1) f show ?thesis
    by (cases "currentWeek ?f"; cases "currentDay ?f"; cases "currentTask ?f")
       (auto simp: finish_def Let_def wf_state_def wf_sect_def wf_week_def wf_day_def)
qed

lemma parseWorklog_wf:
  assumes "parseWorklog text = Inr secs"
  shows "list_all (wf_sect wf_task) secs"
proof -
  from assms obtain st where p: "parse_lines init_pstate (split_lines text) = Inr st"
    and f: "finish st = Inr secs"
    by (auto simp: parseWorklog_def split: sum.splits)
  have "\<forall>l\<in>set (split_lines text). LF \<notin> set l"
    using split_lines_no_LF by blast
  from wf_state_finish [OF f wf_state_lines [OF p wf_state_init this]] show ?thesis .
qed

subsection \<open>The update keeps documents well formed\<close>

lemma list_all_update: "list_all Q xs \<Longrightarrow> Q y \<Longrightarrow> list_all Q (xs[i := y])"
  using set_update_subset_insert [of xs i y] by (auto simp: list_all_iff)

lemma update_tasks_eq:
  "update_tasks tid sm ws ts =
     (case find_index (\<lambda>t. trackingId t = tid) ts of
        None \<Rightarrow> ts @ [\<lparr> trackingId = tid, summary = sm, t_content = new_lines [] ws \<rparr>]
      | Some i \<Rightarrow>
          ts[i := (ts ! i) \<lparr> summary := sm,
                            t_content := t_content (ts ! i) @ new_lines (t_content (ts ! i)) ws \<rparr>])"
  by (auto simp: update_tasks_def new_task_def add_work_items_new_lines
        dest: find_index_less split: option.splits)

lemma update_tasks_all:
  assumes "list_all P ts"
    and upd: "\<And>t. P t \<Longrightarrow> trackingId t = tid \<Longrightarrow>
                P (t \<lparr> summary := sm, t_content := t_content t @ new_lines (t_content t) ws \<rparr>)"
    and new: "P \<lparr> trackingId = tid, summary = sm, t_content = new_lines [] ws \<rparr>"
  shows "list_all P (update_tasks tid sm ws ts)"
proof (cases "find_index (\<lambda>t. trackingId t = tid) ts")
  case None
  with assms(1) new show ?thesis by (simp add: update_tasks_eq)
next
  case (Some i)
  from find_index_Some [OF Some] have i: "i < length ts" "trackingId (ts ! i) = tid"
    by simp_all
  from assms(1) i(1) have "P (ts ! i)" by (simp add: list_all_length)
  from upd [OF this i(2)] assms(1) show ?thesis
    unfolding update_tasks_eq Some by (simp add: list_all_update)
qed

lemma update_days_all:
  assumes "list_all (wf_day P) ds"
    and upd: "\<And>t. P t \<Longrightarrow> trackingId t = tid \<Longrightarrow>
                P (t \<lparr> summary := sm, t_content := t_content t @ new_lines (t_content t) ws \<rparr>)"
    and new: "P \<lparr> trackingId = tid, summary = sm, t_content = new_lines [] ws \<rparr>"
    and dh: "is_day_header (''### '' @ dh)" "LF \<notin> set dh"
  shows "list_all (wf_day P) (update_days e dh tid sm ws ds)"
proof (cases "find_index (\<lambda>d. d_date d = dh) ds")
  case (Some j)
  from find_index_Some [OF Some] have j: "j < length ds" by simp
  with assms(1) have w: "wf_day P (ds ! j)" by (simp add: list_all_length)
  then have "list_all P (tasks (ds ! j))" by (simp add: wf_day_def)
  from update_tasks_all [of P, OF this upd new]
  have "wf_day P ((ds ! j) \<lparr> tasks := update_tasks tid sm ws (tasks (ds ! j)) \<rparr>)"
    using w by (simp add: wf_day_def)
  with assms(1) show ?thesis
    unfolding update_days_found [OF Some] by (rule list_all_update)
next
  case None
  let ?S = "js_sort (\<lambda>a b. compareDates e (d_date a) (d_date b)) (ds @ [new_day dh])"
  have "list_all P []" by simp
  from update_tasks_all [of P, OF this upd new]
  have n: "wf_day P ((new_day dh) \<lparr> tasks := update_tasks tid sm ws [] \<rparr>)"
    using dh by (simp add: wf_day_def new_day_def LF_def)
  have "wf_day P (new_day dh)"
    using dh by (simp add: wf_day_def new_day_def LF_def)
  with assms(1) have "list_all (wf_day P) ?S"
    by (simp add: list_all_iff set_js_sort)
  from this n show ?thesis
    unfolding update_days_new [OF None] Let_def by (rule list_all_update)
qed

lemma new_week_content_plain: "list_all plain [[], ''Last week:'', [], ''This week:'', []]"
  by (simp add: plain_def is_week_header_def is_day_header_def LF_def)

lemma update_sections_all:
  assumes "list_all (wf_sect P) secs"
    and upd: "\<And>t. P t \<Longrightarrow> trackingId t = tid \<Longrightarrow>
                P (t \<lparr> summary := sm, t_content := t_content t @ new_lines (t_content t) ws \<rparr>)"
    and new: "P \<lparr> trackingId = tid, summary = sm, t_content = new_lines [] ws \<rparr>"
    and dh: "is_day_header (''### '' @ dh)" "LF \<notin> set dh"
    and wh: "is_week_header (''## '' @ wh)" "LF \<notin> set wh"
  shows "list_all (wf_sect P) (update_sections e wn wh dh tid sm ws secs)"
proof (cases "find_index (is_target_week wn) secs")
  case (Some i)
  from update_sections_found [OF Some, of e wh dh tid sm ws]
  obtain w where w: "secs ! i = Week w" "i < length secs"
    and r: "update_sections e wn wh dh tid sm ws secs
            = secs[i := Week (w \<lparr> days := update_days e dh tid sm ws (days w) \<rparr>)]"
    by blast
  from assms(1) w have ww: "wf_week P w"
    by (auto simp: list_all_length wf_sect_def split: sect.splits)
  then have "list_all (wf_day P) (days w)" by (simp add: wf_week_def)
  from update_days_all [of P, OF this upd new dh]
  have "wf_sect P (Week (w \<lparr> days := update_days e dh tid sm ws (days w) \<rparr>))"
    using ww by (simp add: wf_sect_def wf_week_def)
  with assms(1) show ?thesis
    unfolding r by (rule list_all_update)
next
  case None
  let ?S = "js_sort compareSections (secs @ [Week (new_week wh wn)])"
  have "list_all (wf_day P) []" by simp
  from update_days_all [of P, OF this upd new dh]
  have n: "wf_sect P (Week ((new_week wh wn) \<lparr> days := update_days e dh tid sm ws [] \<rparr>))"
    using wh new_week_content_plain by (simp add: wf_sect_def wf_week_def new_week_def LF_def)
  have "wf_sect P (Week (new_week wh wn))"
    using wh new_week_content_plain by (simp add: wf_sect_def wf_week_def new_week_def LF_def)
  with assms(1) have "list_all (wf_sect P) ?S"
    by (simp add: list_all_iff set_js_sort)
  from this n show ?thesis
    unfolding update_sections_new [OF None] Let_def by (rule list_all_update)
qed

subsection \<open>Counting work lines\<close>

lemma count_list_distinct: "distinct xs \<Longrightarrow> count_list xs x = (if x \<in> set xs then 1 else 0)"
  by (induction xs) auto

lemma distinct_new_lines: "distinct (new_lines c ws)"
  by (simp add: new_lines_def distinct_keep_first)

lemma set_new_lines: "set (new_lines c ws) = work_line ` set ws - set c"
  by (auto simp: new_lines_def set_keep_first)

lemma count_list_logged:
  "count_list (c @ new_lines c ws) x
   = (if x \<in> work_line ` set ws \<and> x \<notin> set c then 1 else count_list c x)"
  by (simp add: count_list_append count_list_distinct [OF distinct_new_lines] set_new_lines
      count_list_0_iff [THEN iffD2])

lemma count_list_logged_once:
  assumes "w \<in> set ws" "count_list c (work_line w) \<le> 1"
  shows "count_list (c @ new_lines c ws) (work_line w) = 1"
proof (cases "work_line w \<in> set c")
  case True
  then have "count_list c (work_line w) \<noteq> 0" by (simp add: count_list_0_iff)
  with assms(2) True show ?thesis unfolding count_list_logged by simp
next
  case False
  with assms(1) show ?thesis unfolding count_list_logged by simp
qed

lemma new_lines_plain_day:
  assumes "list_all (\<lambda>w. LF \<notin> set w) ws"
  shows "list_all plain_day (new_lines c ws)"
  using assms by (auto simp: list_all_iff set_new_lines work_line_plain_day)

text \<open>The task predicate of the second call\<close>

lemma logged_task_upd:
  assumes "wf_task t \<and> listed_once tid ws t" "trackingId t = tid"
    and "match_task (''- '' @ tid @ '': '' @ sm) = Some (tid, sm)"
    and "list_all (\<lambda>w. LF \<notin> set w) ws"
  shows "wf_task (t \<lparr> summary := sm, t_content := t_content t @ new_lines (t_content t) ws \<rparr>)
         \<and> listed_once tid ws
             (t \<lparr> summary := sm, t_content := t_content t @ new_lines (t_content t) ws \<rparr>)"
proof -
  have "list_all (\<lambda>w. count_list (t_content t @ new_lines (t_content t) ws) (work_line w) \<le> 1) ws"
    using assms(1,2) count_list_logged_once [of _ ws "t_content t"]
    by (auto simp: listed_once_def list_all_iff)
  then show ?thesis
    using assms new_lines_plain_day [OF assms(4)]
    by (simp add: wf_task_def task_line_def listed_once_def)
qed

lemma logged_task_new:
  assumes "match_task (''- '' @ tid @ '': '' @ sm) = Some (tid, sm)"
    and "list_all (\<lambda>w. LF \<notin> set w) ws"
  shows "wf_task \<lparr> trackingId = tid, summary = sm, t_content = new_lines [] ws \<rparr>
         \<and> listed_once tid ws \<lparr> trackingId = tid, summary = sm, t_content = new_lines [] ws \<rparr>"
proof -
  have "list_all (\<lambda>w. count_list ([] @ new_lines [] ws) (work_line w) \<le> 1) ws"
    using count_list_logged_once [of _ ws "[]"] by (auto simp: list_all_iff)
  then show ?thesis
    using assms new_lines_plain_day [OF assms(2)]
    by (simp add: wf_task_def task_line_def listed_once_def)
qed

subsection \<open>The task that a second call finds\<close>

lemma find_index_snoc:
  "find_index P xs = None \<Longrightarrow> P y \<Longrightarrow> find_index P (xs @ [y]) = Some (length xs)"
  by (induction xs) (auto split: if_splits)

lemma set_weeks_of: "set (weeks_of secs) = {w. Week w \<in> set secs}"
  by (induction secs rule: weeks_of.induct) auto

lemma set_all_tasks:
  "set (all_tasks secs) = {t. \<exists>w d. Week w \<in> set secs \<and> d \<in> set (days w) \<and> t \<in> set (tasks d)}"
  by (auto simp: all_tasks_def week_tasks_def set_weeks_of)

lemma target_days_tasks:
  assumes "d \<in> set (target_days wn secs)" "t \<in> set (tasks d)"
  shows "t \<in> set (all_tasks secs)"
proof (cases "find_index (is_target_week wn) secs")
  case None
  with assms(1) show ?thesis by (simp add: target_days_def)
next
  case (Some i)
  show ?thesis
  proof (cases "secs ! i")
    case (Header ls)
    with Some assms(1) show ?thesis by (simp add: target_days_def)
  next
    case (Week w)
    with Some assms(1) have d: "d \<in> set (days w)" by (simp add: target_days_def)
    from find_index_Some [OF Some] Week have "Week w \<in> set secs"
      by (metis nth_mem)
    with d assms(2) show ?thesis
      unfolding set_all_tasks by blast
  qed
qed

lemma update_tasks_shape:
  "\<exists>k c. find_index (\<lambda>t. trackingId t = tid) (update_tasks tid sm ws ts) = Some k
         \<and> t_content (update_tasks tid sm ws ts ! k) = c @ new_lines c ws
         \<and> (c = [] \<or> (\<exists>t\<in>set ts. trackingId t = tid \<and> t_content t = c))"
proof (cases "find_index (\<lambda>t. trackingId t = tid) ts")
  case None
  let ?nt = "\<lparr> trackingId = tid, summary = sm, t_content = new_lines [] ws \<rparr>"
  have "find_index (\<lambda>t. trackingId t = tid) (ts @ [?nt]) = Some (length ts)"
    using None by (rule find_index_snoc) simp
  moreover have "t_content ((ts @ [?nt]) ! length ts) = [] @ new_lines [] ws"
    by simp
  ultimately show ?thesis
    unfolding update_tasks_eq None by (simp only: option.case) blast
next
  case (Some i)
  let ?c = "t_content (ts ! i)"
  let ?t = "(ts ! i) \<lparr> summary := sm, t_content := ?c @ new_lines ?c ws \<rparr>"
  from find_index_Some [OF Some] have i: "i < length ts" "trackingId (ts ! i) = tid"
    by simp_all
  have "find_index (\<lambda>t. trackingId t = tid) (ts[i := ?t]) = Some i"
    using Some by (rule find_index_update) (simp add: i(2))
  moreover have "t_content (ts[i := ?t] ! i) = ?c @ new_lines ?c ws"
    using i(1) by simp
  moreover have "\<exists>t\<in>set ts. trackingId t = tid \<and> t_content t = ?c"
    using i by (intro bexI [of _ "ts ! i"]) simp_all
  ultimately show ?thesis
    unfolding update_tasks_eq Some by (simp only: option.case) blast
qed

lemma update_days_shape:
  "\<exists>j ts0. find_index (\<lambda>d. d_date d = dh) (update_days e dh tid sm ws ds) = Some j
         \<and> tasks (update_days e dh tid sm ws ds ! j) = update_tasks tid sm ws ts0
         \<and> (ts0 = [] \<or> (\<exists>d\<in>set ds. ts0 = tasks d))"
proof (cases "find_index (\<lambda>d. d_date d = dh) ds")
  case (Some j)
  let ?d = "(ds ! j) \<lparr> tasks := update_tasks tid sm ws (tasks (ds ! j)) \<rparr>"
  from find_index_Some [OF Some] have j: "j < length ds" "d_date (ds ! j) = dh"
    by simp_all
  have "find_index (\<lambda>d. d_date d = dh) (ds[j := ?d]) = Some j"
    using Some by (rule find_index_update) (simp add: j(2))
  moreover have "tasks (ds[j := ?d] ! j) = update_tasks tid sm ws (tasks (ds ! j))"
    using j(1) by simp
  moreover have "\<exists>d\<in>set ds. tasks (ds ! j) = tasks d"
    using j(1) by (intro bexI [of _ "ds ! j"]) simp_all
  ultimately show ?thesis
    unfolding update_days_found [OF Some] by blast
next
  case None
  let ?S = "js_sort (\<lambda>a b. compareDates e (d_date a) (d_date b)) (ds @ [new_day dh])"
  let ?j = "index_of (new_day dh) ?S"
  let ?d = "(new_day dh) \<lparr> tasks := update_tasks tid sm ws [] \<rparr>"
  have in_S: "new_day dh \<in> set ?S" by (simp add: set_js_sort)
  have uniq: "y = new_day dh" if "y \<in> set ?S" "d_date y = dh" for y
    using that None by (auto simp: set_js_sort find_index_None)
  have "find_index (\<lambda>d. d_date d = dh) ?S = Some ?j"
    using in_S _ uniq by (rule find_index_unique) (simp add: new_day_def)
  then have "find_index (\<lambda>d. d_date d = dh) (?S[?j := ?d]) = Some ?j"
    by (rule find_index_update) (simp add: new_day_def)
  moreover have "tasks (?S[?j := ?d] ! ?j) = update_tasks tid sm ws []"
    using index_of_nth [OF in_S] by simp
  ultimately show ?thesis
    unfolding update_days_new [OF None] Let_def by blast
qed

lemma lookup_after_update:
  assumes hf: "headers_first secs" and nb: "list_all numbered secs"
  shows "\<exists>t c. lookup_task (Some n) dh tid (update_sections e (Some n) wh dh tid sm ws secs) = Some t
           \<and> t_content t = c @ new_lines c ws
           \<and> (c = [] \<or> (\<exists>t'\<in>set (all_tasks secs). trackingId t' = tid \<and> t_content t' = c))"
proof -
  let ?res = "update_sections e (Some n) wh dh tid sm ws secs"
  let ?ds = "target_days (Some n) secs"
  let ?ds' = "update_days e dh tid sm ws ?ds"
  have "\<exists>i w. find_index (is_target_week (Some n)) ?res = Some i \<and> i < length ?res
               \<and> ?res ! i = Week (w \<lparr> days := ?ds' \<rparr>)
               \<and> weekNumber w = Some n
               \<and> filter is_header ?res = filter is_header secs
               \<and> (find_index (is_target_week (Some n)) secs = None \<longrightarrow>
                    weeks_descending (weeks_of ?res))"
    using hf nb by (rule update_sections_shape)
  then obtain i and w :: week where "find_index (is_target_week (Some n)) ?res = Some i
      \<and> ?res ! i = Week (w \<lparr> days := ?ds' \<rparr>)"
    by (elim exE conjE) (rule that, simp)
  then have td: "target_days (Some n) ?res = ?ds'"
    by (simp add: target_days_def)
  from update_days_shape [of dh e tid sm ws ?ds]
  obtain j ts0 where j: "find_index (\<lambda>d. d_date d = dh) ?ds' = Some j"
    and ts: "tasks (?ds' ! j) = update_tasks tid sm ws ts0"
    and ts0: "ts0 = [] \<or> (\<exists>d\<in>set ?ds. ts0 = tasks d)"
    by blast
  from update_tasks_shape [of tid sm ws ts0]
  obtain k c where k: "find_index (\<lambda>t. trackingId t = tid) (update_tasks tid sm ws ts0) = Some k"
    and c: "t_content (update_tasks tid sm ws ts0 ! k) = c @ new_lines c ws"
    and c0: "c = [] \<or> (\<exists>t\<in>set ts0. trackingId t = tid \<and> t_content t = c)"
    by blast
  have l: "lookup_task (Some n) dh tid ?res = Some (update_tasks tid sm ws ts0 ! k)"
    by (simp add: lookup_task_def td j ts k)
  have "c = [] \<or> (\<exists>t'\<in>set (all_tasks secs). trackingId t' = tid \<and> t_content t' = c)"
  proof (cases "c = []")
    case True
    then show ?thesis by simp
  next
    case False
    with c0 obtain t where t: "t \<in> set ts0" "trackingId t = tid" "t_content t = c"
      by blast
    with ts0 obtain d where "d \<in> set ?ds" "ts0 = tasks d"
      by auto
    with t(1) have "t \<in> set (all_tasks secs)"
      by (intro target_days_tasks [of d "Some n" secs]) simp_all
    with t(2,3) show ?thesis by blast
  qed
  with l c show ?thesis by blast
qed

subsection \<open>Reading a rebuilt text\<close>

lemma plain_day_plain: "list_all plain_day c \<Longrightarrow> list_all plain c"
  by (simp add: list_all_iff plain_day_def)

lemma parse_lines_plain:
  assumes "list_all plain c" "currentDay st = None \<or> list_all plain_day c"
  shows "parse_lines st c = Inr (st \<lparr> buffer := buffer st @ c \<rparr>)"
  using assms
proof (induction c arbitrary: st)
  case Nil
  show ?case by simp
next
  case (Cons l c)
  from Cons.prems have l: "\<not> is_week_header l" "\<not> is_day_header l"
    "currentDay st = None \<or> \<not> is_task_line l"
    by (auto simp: plain_def plain_day_def)
  let ?st = "st \<lparr> buffer := buffer st @ [l] \<rparr>"
  have "parse_lines ?st c = Inr (?st \<lparr> buffer := buffer ?st @ c \<rparr>)"
    using Cons.prems by (intro Cons.IH) auto
  then show ?case
    by (simp add: parse_line_plain [OF l])
qed

lemma closed_tasks_flush: "closed_tasks (flushBuffer st) = closed_tasks st"
  by (cases "currentWeek st"; cases "currentDay st"; cases "currentTask st")
     (simp_all add: closed_tasks_def flushBuffer_fields all_tasks_def weeks_of_append
        week_tasks_def)

lemma reading_blank:
  assumes "reading P st" and cl: "\<And>t. P t \<Longrightarrow> P (t \<lparr> t_content := t_content t @ [[]] \<rparr>)"
  shows "parse_line st [] = Inr (st \<lparr> buffer := buffer st @ [[]] \<rparr>)
         \<and> reading P (st \<lparr> buffer := buffer st @ [[]] \<rparr>)"
proof -
  have p: "parse_line st [] = Inr (st \<lparr> buffer := buffer st @ [[]] \<rparr>)"
    using plain_blank by (intro parse_line_plain) (simp_all add: plain_def plain_day_def)
  have "reading P (st \<lparr> buffer := buffer st @ [[]] \<rparr>)"
  proof (cases "currentTask st")
    case None
    with assms(1) show ?thesis
      by (cases "currentDay st") (simp_all add: reading_def closed_tasks_def)
  next
    case (Some t)
    with assms(1) have "P (t \<lparr> t_content := t_content t @ buffer st \<rparr>)"
      by (simp add: reading_def)
    from cl [OF this] Some assms(1) show ?thesis
      by (cases "currentDay st") (simp_all add: reading_def closed_tasks_def)
  qed
  with p show ?thesis by simp
qed

lemma reading_week_line:
  assumes "reading P st" "is_week_header l"
  shows "\<exists>st'. parse_line st l = Inr st' \<and> reading P st' \<and> currentDay st' = None
           \<and> currentWeek st' \<noteq> None \<and> currentTask st' = None \<and> buffer st' = []"
proof -
  let ?f = "flushBuffer st"
  have "list_all P (closed_tasks ?f)"
    using assms(1) by (simp add: closed_tasks_flush reading_def)
  then show ?thesis
    unfolding parse_line_week [OF assms(2)]
    by (cases "currentWeek ?f"; cases "currentDay ?f")
       (simp_all add: reading_def closed_tasks_def flushBuffer_fields all_tasks_def
          weeks_of_append week_tasks_def)
qed

lemma reading_day_line:
  assumes "reading P st" "currentWeek st \<noteq> None" "is_day_header l"
  shows "\<exists>st'. parse_line st l = Inr st' \<and> reading P st' \<and> currentDay st' \<noteq> None
           \<and> currentTask st' = None \<and> buffer st' = []"
proof -
  let ?f = "flushBuffer st"
  have c: "list_all P (closed_tasks ?f)"
    using assms(1) by (simp add: closed_tasks_flush reading_def)
  from assms(2) obtain w where w: "currentWeek ?f = Some w"
    by (cases "currentTask st"; cases "currentDay st") (auto simp: flushBuffer_fields)
  from c w show ?thesis
    unfolding parse_line_day [OF day_header_not_week [OF assms(3)] assms(3)]
    by (cases "currentDay ?f")
       (simp_all add: reading_def closed_tasks_def week_tasks_def flushBuffer_fields(2))
qed

lemma reading_task_line:
  assumes "reading P st" "currentDay st = Some d" "match_task l = Some (i, s)"
  shows "\<exists>st'. parse_line st l = Inr st' \<and> list_all P (closed_tasks st')
           \<and> currentTask st' = Some \<lparr> trackingId = i, summary = s, t_content = [] \<rparr>
           \<and> buffer st' = [] \<and> currentDay st' \<noteq> None \<and> currentWeek st' \<noteq> None"
proof -
  let ?f = "flushBuffer st"
  have t: "is_task_line l" using assms(3) by (rule match_task_task_line)
  note nh = task_line_not_header [OF t]
  have c: "list_all P (closed_tasks ?f)"
    using assms(1) by (simp add: closed_tasks_flush reading_def)
  from assms(1,2) have w: "currentWeek ?f \<noteq> None"
    by (cases "currentTask st") (auto simp: flushBuffer_fields reading_def)
  from assms(2) obtain d' where d': "currentDay ?f = Some d'"
    by (cases "currentTask st") (auto simp: flushBuffer_fields)
  have o: "case currentTask ?f of None \<Rightarrow> True | Some t \<Rightarrow> P t"
    using assms(1) by (cases "currentTask st") (auto simp: flushBuffer_fields reading_def)
  from c w d' o show ?thesis
    unfolding parse_line_task [OF nh [THEN conjunct1] nh [THEN conjunct2] assms(2) t] assms(3)
    by (cases "currentTask ?f"; cases "currentWeek ?f")
       (simp_all add: closed_tasks_def flushBuffer_fields(2))
qed

lemma reading_content:
  assumes "reading P st" "currentTask st = None" "list_all plain c"
    "currentDay st = None \<or> list_all plain_day c"
  shows "parse_lines st c = Inr (st \<lparr> buffer := buffer st @ c \<rparr>)
         \<and> reading P (st \<lparr> buffer := buffer st @ c \<rparr>)"
  using assms(1,2) parse_lines_plain [OF assms(3,4)]
  by (cases "currentDay st") (simp_all add: reading_def closed_tasks_def)

lemma read_task:
  assumes r: "reading P st" and cd: "currentDay st \<noteq> None"
    and wt: "wf_task t0" and Pt: "P t0"
    and cl: "\<And>t. P t \<Longrightarrow> P (t \<lparr> t_content := t_content t @ [[]] \<rparr>)"
  shows "\<exists>st'. parse_lines st (render_task t0) = Inr st' \<and> reading P st' \<and> currentDay st' \<noteq> None"
proof -
  let ?a = "st \<lparr> buffer := buffer st @ [[]] \<rparr>"
  from reading_blank [OF r cl] have a: "parse_line st [] = Inr ?a" and ra: "reading P ?a"
    by simp_all
  from cd obtain d where d: "currentDay ?a = Some d" by auto
  from wt have m: "match_task (task_line t0) = Some (trackingId t0, summary t0)"
    by (simp add: wf_task_def)
  from reading_task_line [OF ra d m]
  obtain b where b: "parse_line ?a (task_line t0) = Inr b"
    and cb: "list_all P (closed_tasks b)"
    and tb: "currentTask b = Some \<lparr> trackingId = trackingId t0, summary = summary t0, t_content = [] \<rparr>"
    and bb: "buffer b = []" and db: "currentDay b \<noteq> None" and wb: "currentWeek b \<noteq> None"
    by blast
  let ?c = "b \<lparr> buffer := buffer b @ t_content t0 \<rparr>"
  from wt have pd: "list_all plain_day (t_content t0)" by (simp add: wf_task_def)
  have pc: "parse_lines b (t_content t0) = Inr ?c"
    using plain_day_plain [OF pd] pd by (intro parse_lines_plain) simp_all
  have eq: "\<lparr> trackingId = trackingId t0, summary = summary t0, t_content = t_content t0 \<rparr> = t0"
    by simp
  from Pt have Pt': "P \<lparr> trackingId = trackingId t0, summary = summary t0, t_content = t_content t0 \<rparr>"
    by (simp only: eq)
  have "closed_tasks ?c = closed_tasks b" by (simp add: closed_tasks_def)
  with cb tb bb db wb Pt' have rc: "reading P ?c"
    by (cases "currentDay b") (simp_all add: reading_def)
  have "parse_lines st (render_task t0) = Inr ?c"
    using a b pc by (simp add: render_task_def task_line_def)
  with rc db show ?thesis by simp
qed

lemma read_tasks:
  assumes "reading P st" "currentDay st \<noteq> None" "list_all (\<lambda>t. wf_task t \<and> P t) ts"
    and cl: "\<And>t. P t \<Longrightarrow> P (t \<lparr> t_content := t_content t @ [[]] \<rparr>)"
  shows "\<exists>st'. parse_lines st (concat (map render_task ts)) = Inr st' \<and> reading P st'
           \<and> currentDay st' \<noteq> None"
  using assms(1-3)
proof (induction ts arbitrary: st)
  case Nil
  then show ?case by simp
next
  case (Cons t ts)
  from Cons.prems(3) have t: "wf_task t" "P t" and ts: "list_all (\<lambda>t. wf_task t \<and> P t) ts"
    by simp_all
  from read_task [OF Cons.prems(1,2) t cl]
  obtain st1 where 1: "parse_lines st (render_task t) = Inr st1" "reading P st1"
    "currentDay st1 \<noteq> None"
    by blast
  from Cons.IH [OF 1(2,3) ts]
  obtain st2 where 2: "parse_lines st1 (concat (map render_task ts)) = Inr st2" "reading P st2"
    "currentDay st2 \<noteq> None"
    by blast
  from 1(1) 2 show ?case by (simp add: parse_lines_append)
qed

lemma read_day:
  assumes r: "reading P st" and cw: "currentWeek st \<noteq> None"
    and wd: "wf_day (\<lambda>t. wf_task t \<and> P t) d0"
    and cl: "\<And>t. P t \<Longrightarrow> P (t \<lparr> t_content := t_content t @ [[]] \<rparr>)"
  shows "\<exists>st'. parse_lines st (render_day d0) = Inr st' \<and> reading P st' \<and> currentWeek st' \<noteq> None"
proof -
  let ?a = "st \<lparr> buffer := buffer st @ [[]] \<rparr>"
  from reading_blank [OF r cl] have a: "parse_line st [] = Inr ?a" and ra: "reading P ?a"
    by simp_all
  from cw have cwa: "currentWeek ?a \<noteq> None" by simp
  from wd have h: "is_day_header (d_header d0)" and pd: "list_all plain_day (d_content d0)"
    and ts: "list_all (\<lambda>t. wf_task t \<and> P t) (tasks d0)"
    by (simp_all add: wf_day_def)
  from reading_day_line [OF ra cwa h]
  obtain b where b: "parse_line ?a (d_header d0) = Inr b" and rb: "reading P b"
    and db: "currentDay b \<noteq> None" and tb: "currentTask b = None"
    by blast
  let ?c = "b \<lparr> buffer := buffer b @ d_content d0 \<rparr>"
  from reading_content [OF rb tb plain_day_plain [OF pd]] pd
  have pc: "parse_lines b (d_content d0) = Inr ?c" and rc: "reading P ?c"
    by simp_all
  from db have dc: "currentDay ?c \<noteq> None" by simp
  from read_tasks [OF rc dc ts cl]
  obtain st' where e: "parse_lines ?c (concat (map render_task (tasks d0))) = Inr st'"
    and re: "reading P st'" and de: "currentDay st' \<noteq> None"
    by blast
  from re de have "currentWeek st' \<noteq> None"
    by (cases "currentDay st'") (simp_all add: reading_def)
  moreover have "parse_lines st (render_day d0) = Inr st'"
    using a b pc e by (simp add: render_day_def parse_lines_append)
  ultimately show ?thesis using re by simp
qed

lemma read_days:
  assumes "reading P st" "currentWeek st \<noteq> None" "list_all (wf_day (\<lambda>t. wf_task t \<and> P t)) ds"
    and cl: "\<And>t. P t \<Longrightarrow> P (t \<lparr> t_content := t_content t @ [[]] \<rparr>)"
  shows "\<exists>st'. parse_lines st (concat (map render_day ds)) = Inr st' \<and> reading P st'
           \<and> currentWeek st' \<noteq> None"
  using assms(1-3)
proof (induction ds arbitrary: st)
  case Nil
  then show ?case by simp
next
  case (Cons d ds)
  from Cons.prems(3) have d: "wf_day (\<lambda>t. wf_task t \<and> P t) d"
    and ds: "list_all (wf_day (\<lambda>t. wf_task t \<and> P t)) ds"
    by simp_all
  from read_day [OF Cons.prems(1,2) d cl]
  obtain st1 where 1: "parse_lines st (render_day d) = Inr st1" "reading P st1"
    "currentWeek st1 \<noteq> None"
    by blast
  from Cons.IH [OF 1(2,3) ds]
  obtain st2 where 2: "parse_lines st1 (concat (map render_day ds)) = Inr st2" "reading P st2"
    "currentWeek st2 \<noteq> None"
    by blast
  from 1(1) 2 show ?case by (simp add: parse_lines_append)
qed

lemma read_week:
  assumes r: "reading P st"
    and ww: "wf_week (\<lambda>t. wf_task t \<and> P t) w0"
    and cl: "\<And>t. P t \<Longrightarrow> P (t \<lparr> t_content := t_content t @ [[]] \<rparr>)"
  shows "\<exists>st'. parse_lines st (render_week w0) = Inr st' \<and> reading P st'"
proof -
  let ?a = "st \<lparr> buffer := buffer st @ [[]] \<rparr>"
  from reading_blank [OF r cl] have a: "parse_line st [] = Inr ?a" and ra: "reading P ?a"
    by simp_all
  from ww have h: "is_week_header (w_header w0)" and pl: "list_all plain (w_content w0)"
    and ds: "list_all (wf_day (\<lambda>t. wf_task t \<and> P t)) (days w0)"
    by (simp_all add: wf_week_def)
  from reading_week_line [OF ra h]
  obtain b where b: "parse_line ?a (w_header w0) = Inr b" and rb: "reading P b"
    and db: "currentDay b = None" and wb: "currentWeek b \<noteq> None" and tb: "currentTask b = None"
    by blast
  let ?c = "b \<lparr> buffer := buffer b @ w_content w0 \<rparr>"
  from reading_content [OF rb tb pl] db
  have pc: "parse_lines b (w_content w0) = Inr ?c" and rc: "reading P ?c"
    by simp_all
  from wb have wc: "currentWeek ?c \<noteq> None" by simp
  from read_days [OF rc wc ds cl]
  obtain st' where e: "parse_lines ?c (concat (map render_day (days w0))) = Inr st'"
    and re: "reading P st'"
    by blast
  have "parse_lines st (render_week w0) = Inr st'"
    using a b pc e by (simp add: render_week_def parse_lines_append)
  with re show ?thesis by simp
qed

lemma read_weeks:
  assumes "reading P st" "list_all (wf_week (\<lambda>t. wf_task t \<and> P t)) wks"
    and cl: "\<And>t. P t \<Longrightarrow> P (t \<lparr> t_content := t_content t @ [[]] \<rparr>)"
  shows "\<exists>st'. parse_lines st (concat (map render_week wks)) = Inr st' \<and> reading P st'"
  using assms(1,2)
proof (induction wks arbitrary: st)
  case Nil
  then show ?case by simp
next
  case (Cons w wks)
  from Cons.prems(2) have w: "wf_week (\<lambda>t. wf_task t \<and> P t) w"
    and wks: "list_all (wf_week (\<lambda>t. wf_task t \<and> P t)) wks"
    by simp_all
  from read_week [OF Cons.prems(1) w cl]
  obtain st1 where 1: "parse_lines st (render_week w) = Inr st1" "reading P st1"
    by blast
  from Cons.IH [OF 1(2) wks]
  obtain st2 where 2: "parse_lines st1 (concat (map render_week wks)) = Inr st2" "reading P st2"
    by blast
  from 1(1) 2 show ?case by (simp add: parse_lines_append)
qed

lemma reading_init: "reading P init_pstate"
  by (simp add: reading_def closed_tasks_def init_pstate_def all_tasks_def)

lemma all_tasks_snoc:
  "all_tasks (secs @ [Week w]) = all_tasks secs @ week_tasks w"
  by (simp add: all_tasks_def weeks_of_append)

lemma reading_finish:
  assumes "reading P st"
  shows "\<exists>secs. finish st = Inr secs \<and> list_all P (all_tasks secs)"
proof -
  let ?f = "flushBuffer st"
  have c: "list_all P (closed_tasks ?f)"
    using assms by (simp add: closed_tasks_flush reading_def)
  have o: "case currentTask ?f of None \<Rightarrow> True | Some t \<Rightarrow> P t \<and> currentDay ?f \<noteq> None"
    using assms by (cases "currentTask st") (auto simp: flushBuffer_fields reading_def)
  have w: "case currentDay ?f of None \<Rightarrow> True | Some d \<Rightarrow> currentWeek ?f \<noteq> None"
    using assms
    by (cases "currentTask st"; cases "currentDay st")
       (auto simp: flushBuffer_fields reading_def)
  from c o w show ?thesis
    by (cases "currentWeek ?f"; cases "currentDay ?f"; cases "currentTask ?f")
       (auto simp: finish_def Let_def closed_tasks_def all_tasks_snoc week_tasks_def)
qed

lemma wf_day_mono: "(\<And>t. Q t \<Longrightarrow> Q' t) \<Longrightarrow> wf_day Q d \<Longrightarrow> wf_day Q' d"
  by (auto simp: wf_day_def list_all_iff)

lemma wf_week_mono: "(\<And>t. Q t \<Longrightarrow> Q' t) \<Longrightarrow> wf_week Q w \<Longrightarrow> wf_week Q' w"
  using wf_day_mono [of Q Q'] by (auto simp: wf_week_def list_all_iff)

lemma wf_sect_mono: "(\<And>t. Q t \<Longrightarrow> Q' t) \<Longrightarrow> wf_sect Q s \<Longrightarrow> wf_sect Q' s"
  using wf_week_mono [of Q Q'] by (cases s) (auto simp: wf_sect_def list_all_iff)

lemma render_task_no_LF:
  assumes "wf_task t" "l \<in> set (render_task t)"
  shows "LF \<notin> set l"
  using assms wf_task_line(4) [OF assms(1)]
  by (auto simp: render_task_def task_line_def wf_task_def list_all_iff plain_day_def plain_def)

lemma render_day_no_LF:
  assumes "wf_day wf_task d" "l \<in> set (render_day d)"
  shows "LF \<notin> set l"
  using assms render_task_no_LF
  by (auto simp: render_day_def wf_day_def list_all_iff plain_day_def plain_def)

lemma render_week_no_LF:
  assumes "wf_week wf_task w" "l \<in> set (render_week w)"
  shows "LF \<notin> set l"
  using assms render_day_no_LF
  by (auto simp: render_week_def wf_week_def list_all_iff plain_def)

lemma wf_weeks_of: "list_all (wf_sect Q) secs \<Longrightarrow> list_all (wf_week Q) (weeks_of secs)"
  by (induction secs rule: weeks_of.induct) (simp_all add: wf_sect_def)

lemma wf_header_lines:
  "list_all (wf_sect Q) secs \<Longrightarrow> list_all plain (concat (map header_lines (filter is_header secs)))"
  by (induction secs rule: weeks_of.induct)
     (simp_all add: wf_sect_def is_header_def header_lines_def)

lemma output_lines_split:
  "output_lines secs
   = concat (map header_lines (filter is_header secs)) @ concat (map render_week (weeks_of secs))"
  by (simp add: output_lines_def week_lines_weeks_of)

lemma reparse:
  assumes wf: "list_all (wf_sect (\<lambda>t. wf_task t \<and> P t)) D"
    and cl: "\<And>t. P t \<Longrightarrow> P (t \<lparr> t_content := t_content t @ [[]] \<rparr>)"
    and ne: "weeks_of D \<noteq> []"
  shows "\<exists>D'. parseWorklog (render D) = Inr D' \<and> list_all P (all_tasks D')"
proof -
  let ?H = "concat (map header_lines (filter is_header D))"
  let ?W = "concat (map render_week (weeks_of D))"
  have wfw: "list_all (wf_week (\<lambda>t. wf_task t \<and> P t)) (weeks_of D)"
    using wf by (rule wf_weeks_of)
  have pH: "list_all plain ?H" using wf by (rule wf_header_lines)
  have "list_all (wf_week wf_task) (weeks_of D)"
    using wfw wf_week_mono [of "\<lambda>t. wf_task t \<and> P t" wf_task] by (auto simp: list_all_iff)
  then have nW: "\<forall>l\<in>set ?W. LF \<notin> set l"
    using render_week_no_LF by (auto simp: list_all_iff)
  have nH: "\<forall>l\<in>set ?H. LF \<notin> set l"
    using pH by (auto simp: list_all_iff plain_def)
  from ne obtain w wks where "weeks_of D = w # wks" by (cases "weeks_of D") auto
  then have "?W \<noteq> []" by (simp add: render_week_def)
  then have "output_lines D \<noteq> []" by (simp add: output_lines_split)
  moreover have "\<forall>l\<in>set (output_lines D). LF \<notin> set l"
    using nH nW unfolding output_lines_split by auto
  ultimately have sl: "split_lines (render D) = ?H @ ?W @ [[]]"
    unfolding render_def by (simp add: split_lines_render_lines output_lines_split)
  let ?a = "init_pstate \<lparr> buffer := buffer init_pstate @ ?H \<rparr>"
  have "currentTask init_pstate = None" "currentDay init_pstate = None"
    by (simp_all add: init_pstate_def)
  with reading_content [OF reading_init [of P] _ pH]
  have a: "parse_lines init_pstate ?H = Inr ?a" and ra: "reading P ?a"
    by simp_all
  from read_weeks [OF ra wfw cl]
  obtain b where b: "parse_lines ?a ?W = Inr b" and rb: "reading P b"
    by blast
  let ?c = "b \<lparr> buffer := buffer b @ [[]] \<rparr>"
  from reading_blank [OF rb cl] have c: "parse_line b [] = Inr ?c" and rc: "reading P ?c"
    by simp_all
  from reading_finish [OF rc] obtain D' where f: "finish ?c = Inr D'"
    and P: "list_all P (all_tasks D')"
    by blast
  have "parse_lines init_pstate (?H @ ?W @ [[]]) = Inr ?c"
    using a b c by (simp add: parse_lines_append)
  with f have "parseWorklog (render D) = Inr D'"
    by (simp add: parseWorklog_def sl)
  with P show ?thesis by blast
qed

lemma listed_once_blank:
  "listed_once tid ws t \<Longrightarrow> listed_once tid ws (t \<lparr> t_content := t_content t @ [[]] \<rparr>)"
  by (auto simp: listed_once_def list_all_iff work_line_def)

lemma wf_sect_tasks:
  assumes "list_all (wf_sect Q) secs" "list_all Q' (all_tasks secs)"
  shows "list_all (wf_sect (\<lambda>t. Q t \<and> Q' t)) secs"
proof -
  have "wf_sect (\<lambda>t. Q t \<and> Q' t) s" if s: "s \<in> set secs" for s
  proof (cases s)
    case (Header ls)
    with assms(1) s show ?thesis by (auto simp: list_all_iff wf_sect_def)
  next
    case (Week w)
    with assms(2) s have "\<forall>d\<in>set (days w). \<forall>t\<in>set (tasks d). Q' t"
      unfolding list_all_iff set_all_tasks by blast
    moreover from assms(1) s Week have "wf_week Q w"
      by (auto simp: list_all_iff wf_sect_def)
    ultimately show ?thesis
      unfolding Week by (auto simp: wf_sect_def wf_week_def wf_day_def list_all_iff)
  qed
  then show ?thesis by (simp add: list_all_iff)
qed

text \<open>
  Claim C3, amended. Let the file parse, and let no task of it with the tracking id list
  a supplied work item more than once. Let the week header be of the form \<open>Week N\<close> and
  the date header of the form \<open>YYYY/MM/DD\<close>, each on one line; let the task line
  \<open>- id: summary\<close> be one that the parser reads back as that id and that summary (the
  id is capital letters, a hyphen and digits; the summary is not empty and has no line
  break); let each work item be one line. Then two calls in succession with these
  arguments both succeed: the first rebuilds a text that the second parses, and in the
  document that the second call rebuilds the file from, the task it logged to lists the
  work line of each supplied work item exactly once.
\<close>

theorem update_twice:
  assumes p: "parseWorklog content = Inr secs"
    and once: "list_all (listed_once tid ws) (all_tasks secs)"
    and wh: "is_week_header (''## '' @ wh)" "LF \<notin> set wh"
    and dh: "is_day_header (''### '' @ dh)" "LF \<notin> set dh"
    and tl: "match_task (''- '' @ tid @ '': '' @ sm) = Some (tid, sm)"
    and ws: "list_all (\<lambda>w. LF \<notin> set w) ws"
  shows "\<exists>t. log_twice e (Some n) wh dh tid sm ws content = Inr (Some t)
           \<and> list_all (\<lambda>w. count_list (t_content t) (work_line w) = 1) ws"
proof -
  let ?P = "\<lambda>t. wf_task t \<and> listed_once tid ws t"
  let ?D1 = "update_sections e (Some n) wh dh tid sm ws secs"
  have upd: "?P (t \<lparr> summary := sm, t_content := t_content t @ new_lines (t_content t) ws \<rparr>)"
    if "?P t" "trackingId t = tid" for t
    using that tl ws by (rule logged_task_upd)
  have new: "?P \<lparr> trackingId = tid, summary = sm, t_content = new_lines [] ws \<rparr>"
    using tl ws by (rule logged_task_new)
  have "list_all (wf_sect ?P) secs"
    using parseWorklog_wf [OF p] once by (rule wf_sect_tasks)
  then have wf1: "list_all (wf_sect ?P) ?D1"
    using upd new dh wh by (rule update_sections_all)
  have inv: "headers_first secs" "list_all numbered secs"
    using parseWorklog_inv [OF p] by simp_all
  have "\<exists>i w. find_index (is_target_week (Some n)) ?D1 = Some i \<and> i < length ?D1
               \<and> ?D1 ! i = Week (w \<lparr> days := update_days e dh tid sm ws (target_days (Some n) secs) \<rparr>)
               \<and> weekNumber w = Some n
               \<and> filter is_header ?D1 = filter is_header secs
               \<and> (find_index (is_target_week (Some n)) secs = None \<longrightarrow>
                    weeks_descending (weeks_of ?D1))"
    using inv by (rule update_sections_shape)
  then obtain i w' where "i < length ?D1" "?D1 ! i = Week w'"
    by blast
  then have "Week w' \<in> set ?D1" by (metis nth_mem)
  then have ne: "weeks_of ?D1 \<noteq> []"
    using set_weeks_of [of ?D1] by auto
  have cl: "listed_once tid ws (t \<lparr> t_content := t_content t @ [[]] \<rparr>)"
    if "listed_once tid ws t" for t
    using that by (rule listed_once_blank)
  have wf1': "list_all (wf_sect (\<lambda>t. wf_task t \<and> listed_once tid ws t)) ?D1"
    using wf1 .
  from reparse [of "listed_once tid ws", OF wf1' cl ne]
  obtain secs1 where p1: "parseWorklog (render ?D1) = Inr secs1"
    and once1: "list_all (listed_once tid ws) (all_tasks secs1)"
    by blast
  have inv1: "headers_first secs1" "list_all numbered secs1"
    using parseWorklog_inv [OF p1] by simp_all
  from lookup_after_update [OF inv1, of n dh tid e wh sm ws]
  obtain t c where l: "lookup_task (Some n) dh tid (update_sections e (Some n) wh dh tid sm ws secs1) = Some t"
    and tc: "t_content t = c @ new_lines c ws"
    and c: "c = [] \<or> (\<exists>t'\<in>set (all_tasks secs1). trackingId t' = tid \<and> t_content t' = c)"
    by blast
  have c1: "count_list c (work_line w) \<le> 1" if "w \<in> set ws" for w
  proof (cases "c = []")
    case True
    then show ?thesis by simp
  next
    case False
    with c obtain t' where "t' \<in> set (all_tasks secs1)" "trackingId t' = tid" "t_content t' = c"
      by blast
    with once1 that show ?thesis
      by (auto simp: list_all_iff listed_once_def)
  qed
  have "list_all (\<lambda>w. count_list (t_content t) (work_line w) = 1) ws"
    unfolding tc list_all_iff using count_list_logged_once c1 by blast
  moreover have "log_twice e (Some n) wh dh tid sm ws content = Inr (Some t)"
    by (simp add: log_twice_def update_text_def p p1 l)
  ultimately show ?thesis by blast
qed

text \<open>
  A file with one task that lists \<open>a\<close>; \<open>a\<close> and \<open>b\<close> are logged twice.
\<close>

theorem update_twice_witness:
  "parseWorklog ''# T\<newline>## Week 5\<newline>### 2026/01/28\<newline>- PROJ-1: S\<newline>  - a\<newline>''
     = Inr [Header [''# T''],
            Week \<lparr> w_header = ''## Week 5'', weekNumber = Some 5, w_content = [],
                   days = [\<lparr> d_header = ''### 2026/01/28'', d_date = ''2026/01/28'',
                            d_content = [],
                            tasks = [\<lparr> trackingId = ''PROJ-1'', summary = ''S'',
                                       t_content = [''  - a'', []] \<rparr>] \<rparr>] \<rparr>]
   \<and> list_all (listed_once ''PROJ-1'' [''a'', ''b''])
         (all_tasks
           [Header [''# T''],
            Week \<lparr> w_header = ''## Week 5'', weekNumber = Some 5, w_content = [],
                   days = [\<lparr> d_header = ''### 2026/01/28'', d_date = ''2026/01/28'',
                            d_content = [],
                            tasks = [\<lparr> trackingId = ''PROJ-1'', summary = ''S'',
                                       t_content = [''  - a'', []] \<rparr>] \<rparr>] \<rparr>])
   \<and> is_week_header (''## '' @ ''Week 5'') \<and> LF \<notin> set ''Week 5''
   \<and> is_day_header (''### '' @ ''2026/01/28'') \<and> LF \<notin> set ''2026/01/28''
   \<and> match_task (''- '' @ ''PROJ-1'' @ '': '' @ ''S'') = Some (''PROJ-1'', ''S'')
   \<and> list_all (\<lambda>w. LF \<notin> set w) [''a'', ''b'']
   \<and> (\<exists>t. log_twice
              \<lparr> tza = 0, now = 0, parse_other = (\<lambda>s. None), worklogsPath = [''w''], prettier = Some \<rparr>
              (Some 5) ''Week 5'' ''2026/01/28'' ''PROJ-1'' ''S'' [''a'', ''b'']
              ''# T\<newline>## Week 5\<newline>### 2026/01/28\<newline>- PROJ-1: S\<newline>  - a\<newline>''
            = Inr (Some t)
          \<and> list_all (\<lambda>w. count_list (t_content t) (work_line w) = 1) [''a'', ''b''])"
proof -
  let ?e = "\<lparr> tza = 0, now = 0, parse_other = (\<lambda>s. None), worklogsPath = [''w''], prettier = Some \<rparr>"
  let ?secs = "[Header [''# T''],
            Week \<lparr> w_header = ''## Week 5'', weekNumber = Some 5, w_content = [],
                   days = [\<lparr> d_header = ''### 2026/01/28'', d_date = ''2026/01/28'',
                            d_content = [],
                            tasks = [\<lparr> trackingId = ''PROJ-1'', summary = ''S'',
                                       t_content = [''  - a'', []] \<rparr>] \<rparr>] \<rparr>]"
  have h1: "parseWorklog ''# T\<newline>## Week 5\<newline>### 2026/01/28\<newline>- PROJ-1: S\<newline>  - a\<newline>''
              = Inr ?secs"
    by code_simp
  have h2: "list_all (listed_once ''PROJ-1'' [''a'', ''b'']) (all_tasks ?secs)"
    by code_simp
  have h3: "is_week_header (''## '' @ ''Week 5'')" "LF \<notin> set ''Week 5''"
    by code_simp+
  have h4: "is_day_header (''### '' @ ''2026/01/28'')" "LF \<notin> set ''2026/01/28''"
    by code_simp+
  have h5: "match_task (''- '' @ ''PROJ-1'' @ '': '' @ ''S'') = Some (''PROJ-1'', ''S'')"
    by code_simp
  have h6: "list_all (\<lambda>w. LF \<notin> set w) [''a'', ''b'']"
    by code_simp
  from update_twice [where e = ?e and n = 5, OF h1 h2 h3 h4 h5 h6] h1 h2 h3 h4 h5 h6
  show ?thesis by blast
qed

text \<open>
  Claim C3 as stated fails when the file already lists a work item twice under the task,
  as a hand-edited file can: logging \<open>a\<close> twice leaves both lines, since the update only
  ever appends.
\<close>

theorem update_twice_counterexample:
  "log_twice
     \<lparr> tza = 0, now = 0, parse_other = (\<lambda>s. None), worklogsPath = [''w''], prettier = Some \<rparr>
     (Some 5) ''Week 5'' ''2026/01/28'' ''PROJ-1'' ''S'' [''a'']
     ''## Week 5\<newline>### 2026/01/28\<newline>- PROJ-1: S\<newline>  - a\<newline>  - a\<newline>''
   = Inr (Some \<lparr> trackingId = ''PROJ-1'', summary = ''S'',
                    t_content = [''  - a'', ''  - a'', [], []] \<rparr>)
   \<and> count_list [''  - a'', ''  - a'', [], []] (work_line ''a'') = 2"
  by code_simp

section \<open>The title of a new worklog file\<close>

subsection \<open>The calendar fields of a date made from them\<close>

lemma InLeapYear_01: "InLeapYear y = 0 \<or> InLeapYear y = 1"
  by (simp add: InLeapYear_def)

lemma month_cases:
  fixes m :: int
  assumes "0 \<le> m" "m \<le> 11"
  shows "m = 0 \<or> m = 1 \<or> m = 2 \<or> m = 3 \<or> m = 4 \<or> m = 5 \<or> m = 6 \<or> m = 7
         \<or> m = 8 \<or> m = 9 \<or> m = 10 \<or> m = 11"
  using assms by arith

lemma day_in_year:
  assumes "0 \<le> m" "m \<le> 11" "1 \<le> d" "d \<le> DaysInMonth y m"
  shows "0 \<le> MonthStart (InLeapYear y) m + d - 1"
    and "MonthStart (InLeapYear y) m + d - 1 < 365 + InLeapYear y"
  using assms(3,4) InLeapYear_01 [of y] month_cases [OF assms(1,2)]
  by (elim disjE; simp add: DaysInMonth_def MonthStart_def; fail)+

lemma YearFromDay_MakeDay:
  assumes "0 \<le> m" "m \<le> 11" "1 \<le> d" "d \<le> DaysInMonth y m"
  shows "YearFromDay (MakeDay y m d) = y"
proof -
  let ?n = "MakeDay y m d"
  have md: "m div 12 = 0" "m mod 12 = m" using assms(1,2) by simp_all
  have n: "?n = DayFromYear y + (MonthStart (InLeapYear y) m + d - 1)"
    by (simp add: MakeDay_def md)
  from day_in_year [OF assms] n have lo: "DayFromYear y \<le> ?n"
    and hi: "?n < DayFromYear (y + 1)"
    by (simp_all add: DayFromYear_step)
  from lo have "y \<le> YearFromDay ?n" by (simp only: YearFromDay_greatest)
  moreover have "\<not> y + 1 \<le> YearFromDay ?n"
    using hi by (simp only: YearFromDay_greatest [symmetric])
  ultimately show ?thesis by simp
qed

lemma MonthFromDay_MakeDay:
  assumes "0 \<le> m" "m \<le> 11" "1 \<le> d" "d \<le> DaysInMonth y m"
  shows "MonthFromDay (MakeDay y m d) = m"
proof -
  let ?n = "MakeDay y m d"
  have md: "m div 12 = 0" "m mod 12 = m" using assms(1,2) by simp_all
  have y: "YearFromDay ?n = y" using assms by (rule YearFromDay_MakeDay)
  have w: "DayWithinYear ?n = MonthStart (InLeapYear y) m + d - 1"
    unfolding DayWithinYear_def y by (simp add: MakeDay_def md)
  show ?thesis
    unfolding MonthFromDay_def w y Let_def
    using assms(3,4) InLeapYear_01 [of y] month_cases [OF assms(1,2)]
    by (elim disjE; simp add: DaysInMonth_def MonthStart_def; fail)
qed

lemma Day_local:
  assumes "0 \<le> z" "z < msPerDay"
  shows "Day (n * msPerDay + z) = n"
proof -
  have "(z + n * msPerDay) div msPerDay = n + z div msPerDay"
    by (rule div_mult_self1) (simp add: msPerDay_def)
  moreover have "z div msPerDay = 0" using assms by simp
  ultimately show ?thesis by (simp add: Day_def add.commute)
qed

lemma local_fields:
  assumes "0 \<le> z" "z < msPerDay" "0 \<le> m" "m \<le> 11" "1 \<le> d" "d \<le> DaysInMonth y m"
  shows "getFullYear z (MakeDay y m d * msPerDay) = y"
    and "getMonth z (MakeDay y m d * msPerDay) = m"
  using Day_local [OF assms(1,2)] YearFromDay_MakeDay [OF assms(3-6)]
    MonthFromDay_MakeDay [OF assms(3-6)]
  by (simp_all add: getFullYear_def getMonth_def LocalTime_def YearFromTime_def MonthFromTime_def)

subsection \<open>Printing the numbers read from digits\<close>

lemma is_digit_cases:
  assumes "is_digit c"
  shows "c = CHR ''0'' \<or> c = CHR ''1'' \<or> c = CHR ''2'' \<or> c = CHR ''3'' \<or> c = CHR ''4''
         \<or> c = CHR ''5'' \<or> c = CHR ''6'' \<or> c = CHR ''7'' \<or> c = CHR ''8'' \<or> c = CHR ''9''"
  using assms by (auto simp: is_digit_def)

lemma digit_val_char:
  assumes "is_digit c"
  shows "digit_val c < 10" "digit_char (digit_val c) = c" "c \<noteq> LF" "c \<noteq> CHR ''-''"
    "(digit_val c = 0) = (c = CHR ''0'')"
proof -
  note c = is_digit_cases [OF assms]
  from c show "digit_val c < 10" by (elim disjE; hypsubst; code_simp)
  from c show "digit_char (digit_val c) = c" by (elim disjE; hypsubst; code_simp)
  from c show "c \<noteq> LF" by (elim disjE; hypsubst; code_simp)
  from c show "c \<noteq> CHR ''-''" by (elim disjE; hypsubst; code_simp)
  from c show "(digit_val c = 0) = (c = CHR ''0'')" by (elim disjE; hypsubst; code_simp)
qed

lemma show_nat_digit: "k < 10 \<Longrightarrow> show_nat k = [digit_char k]"
  by (subst show_nat.simps) simp

lemma show_nat_10: "0 < n \<Longrightarrow> k < 10 \<Longrightarrow> show_nat (10 * n + k) = show_nat n @ [digit_char k]"
  by (subst show_nat.simps) simp

lemma parseInt_single: "parseInt [c] = digit_val c"
  by (simp add: parseInt_def)

lemma parseInt_snoc: "parseInt (ds @ [c]) = 10 * parseInt ds + digit_val c"
  by (simp add: parseInt_def)

lemma show_parseInt_single: "is_digit c \<Longrightarrow> show_nat (parseInt [c]) = [c]"
  using digit_val_char(1,2) [of c] by (simp add: parseInt_single show_nat_digit)

lemma show_parseInt_snoc:
  assumes "0 < parseInt ds" "is_digit c"
  shows "show_nat (parseInt (ds @ [c])) = show_nat (parseInt ds) @ [c]"
    and "0 < parseInt (ds @ [c])"
  using assms(1) digit_val_char(1,2) [OF assms(2)]
  by (simp_all add: parseInt_snoc show_nat_10)

lemma show_year:
  assumes "list_all is_digit [y1, y2, y3, y4]" "y1 \<noteq> CHR ''0''"
  shows "show_int (int (parseInt [y1, y2, y3, y4])) = [y1, y2, y3, y4]"
proof -
  from assms have d: "is_digit y1" "is_digit y2" "is_digit y3" "is_digit y4" by simp_all
  have p1: "0 < parseInt [y1]"
    using digit_val_char(5) [OF d(1)] assms(2) by (simp add: parseInt_single)
  note s2 = show_parseInt_snoc [OF p1 d(2)]
  note s3 = show_parseInt_snoc [OF s2(2) d(3)]
  note s4 = show_parseInt_snoc [OF s3(2) d(4)]
  have "show_nat (parseInt ((([y1] @ [y2]) @ [y3]) @ [y4])) = (([y1] @ [y2]) @ [y3]) @ [y4]"
    unfolding s4(1) s3(1) s2(1) show_parseInt_single [OF d(1)] ..
  then show ?thesis by (simp add: show_int_def)
qed

lemma show_month:
  assumes "list_all is_digit [m1, m2]"
  shows "padStart0 2 (show_int (int (parseInt [m1, m2]))) = [m1, m2]"
proof -
  from assms have d: "is_digit m1" "is_digit m2" by simp_all
  have p: "parseInt [m1, m2] = 10 * parseInt [m1] + digit_val m2"
    using parseInt_snoc [of "[m1]" m2] by simp
  show ?thesis
  proof (cases "parseInt [m1] = 0")
    case True
    then have m1: "m1 = CHR ''0''"
      using digit_val_char(5) [OF d(1)] by (simp add: parseInt_single)
    have "parseInt [m1, m2] = parseInt [m2]"
      unfolding p True by (simp add: parseInt_single)
    then have "show_nat (parseInt [m1, m2]) = [m2]"
      using show_parseInt_single [OF d(2)] by simp
    then show ?thesis
      by (simp add: show_int_def padStart0_def m1)
  next
    case False
    then have "0 < parseInt [m1]" by simp
    from show_parseInt_snoc(1) [OF this d(2)] show_parseInt_single [OF d(1)]
    have "show_nat (parseInt [m1, m2]) = [m1, m2]" by simp
    then show ?thesis by (simp add: show_int_def padStart0_def)
  qed
qed

lemma parseInt_year_range:
  assumes "list_all is_digit [y1, y2, y3, y4]"
  shows "parseInt [y1, y2, y3, y4] \<le> 9999"
proof -
  from assms have d: "is_digit y1" "is_digit y2" "is_digit y3" "is_digit y4" by simp_all
  show ?thesis
    using digit_val_char(1) [OF d(1)] digit_val_char(1) [OF d(2)]
      digit_val_char(1) [OF d(3)] digit_val_char(1) [OF d(4)]
    by (simp add: parseInt_def)
qed

lemma parse_iso_date_Some:
  assumes "parse_iso_date [y1, y2, y3, y4, h1, m1, m2, h2, d1, d2] = Some t"
  shows "list_all is_digit [y1, y2, y3, y4]" "list_all is_digit [m1, m2]"
    "1 \<le> int (parseInt [m1, m2])" "int (parseInt [m1, m2]) \<le> 12"
    "1 \<le> int (parseInt [d1, d2])"
    "int (parseInt [d1, d2]) \<le> DaysInMonth (int (parseInt [y1, y2, y3, y4])) (int (parseInt [m1, m2]) - 1)"
    "t = MakeDay (int (parseInt [y1, y2, y3, y4])) (int (parseInt [m1, m2]) - 1) (int (parseInt [d1, d2]))
         * msPerDay"
  using assms by (simp_all add: parse_iso_date_def Let_def split: if_splits)

subsection \<open>The week information of a date in the date-only form\<close>

lemma setDate_shift: "setDate z t dt = TimeClip (t + (dt - getDate z t) * msPerDay)"
proof -
  let ?lt = "t + z"
  let ?n = "Day ?lt"
  have "MakeDay (YearFromDay ?n) (MonthFromDay ?n) (DateFromDay ?n + (dt - DateFromDay ?n))
        = ?n + (dt - DateFromDay ?n)"
    by (rule MakeDay_fields)
  then have m: "MakeDay (YearFromDay ?n) (MonthFromDay ?n) dt = ?n + (dt - DateFromDay ?n)"
    by simp
  have "?n * msPerDay + TimeWithinDay ?lt = ?lt"
    by (simp add: Day_def TimeWithinDay_def)
  then have "(?n + (dt - DateFromDay ?n)) * msPerDay + TimeWithinDay ?lt - z
             = t + (dt - DateFromDay ?n) * msPerDay"
    by (simp add: algebra_simps)
  then show ?thesis
    by (simp add: setDate_def Let_def LocalTime_def YearFromTime_def MonthFromTime_def m
        getDate_def DateFromTime_def)
qed

lemma getWeekRange_ok:
  assumes "\<bar>t\<bar> \<le> 8640000000000000 - 7 * msPerDay"
  shows "\<exists>r. getWeekRange z t = Inr r"
proof -
  define day where "day = getDay z t"
  define k where "k = (if day = 0 then - 6 else 1) - day"
  have "0 \<le> day" "day \<le> 6"
    by (simp_all add: day_def getDay_def WeekDay_def)
  then have k: "- 6 \<le> k" "k \<le> 0" by (auto simp: k_def)
  define monday where "monday = t + k * msPerDay"
  have b1: "\<bar>monday\<bar> \<le> 8640000000000000"
    using assms k by (simp add: monday_def msPerDay_def)
  have b2: "\<bar>monday + 6 * msPerDay\<bar> \<le> 8640000000000000"
    using assms k by (simp add: monday_def msPerDay_def)
  have "getDate z t - day + (if day = 0 then - 6 else 1) - getDate z t = k"
    by (simp add: k_def)
  then have s1: "setDate z t (getDate z t - day + (if day = 0 then - 6 else 1)) = Some monday"
    unfolding setDate_shift using b1 by (simp add: TimeClip_def monday_def)
  have s2: "setDate z monday (getDate z monday + 6) = Some (monday + 6 * msPerDay)"
    unfolding setDate_shift using b2 by (simp add: TimeClip_def)
  show ?thesis
    unfolding getWeekRange_def Let_def day_def [symmetric] s1
    by (simp add: s2)
qed

lemma DayFromYear_range:
  assumes "0 \<le> y" "y \<le> 9999"
  shows "- 720000 \<le> DayFromYear y" "DayFromYear y \<le> 2940000"
  using DayFromYear_bounds [of y] assms by simp_all

lemma iso_time_bound:
  assumes "parse_iso_date [y1, y2, y3, y4, h1, m1, m2, h2, d1, d2] = Some t"
  shows "\<bar>t\<bar> \<le> 8640000000000000 - 7 * msPerDay"
proof -
  note p = parse_iso_date_Some [OF assms]
  let ?y = "int (parseInt [y1, y2, y3, y4])" and ?m = "int (parseInt [m1, m2]) - 1"
    and ?d = "int (parseInt [d1, d2])"
  have m: "0 \<le> ?m" "?m \<le> 11" using p(3,4) by simp_all
  have y: "0 \<le> ?y" "?y \<le> 9999" using parseInt_year_range [OF p(1)] by simp_all
  have md: "?m div 12 = 0" "?m mod 12 = ?m" using m by simp_all
  define k where "k = MonthStart (InLeapYear ?y) ?m + ?d - 1"
  have n: "MakeDay ?y ?m ?d = DayFromYear ?y + k"
    by (simp add: MakeDay_def md k_def Let_def)
  have k: "0 \<le> k" "k < 366"
    using day_in_year [OF m p(5,6)] InLeapYear_01 [of ?y] by (auto simp: k_def)
  define n where "n = DayFromYear ?y + k"
  have "- 720000 \<le> n" "n \<le> 2941000"
    using DayFromYear_range [OF y] k by (simp_all add: n_def)
  then have "\<bar>n * msPerDay\<bar> \<le> 8640000000000000 - 7 * msPerDay"
    by (simp add: msPerDay_def)
  then show ?thesis
    unfolding p(7) n n_def .
qed

subsection \<open>The text that logWork starts from\<close>

lemma week_info_iso:
  assumes valid: "parse_iso_date [y1, y2, y3, y4, CHR ''-'', m1, m2, CHR ''-'', d1, d2] = Some t"
    and y1: "y1 \<noteq> CHR ''0''"
    and tz: "0 \<le> tza e" "tza e < msPerDay"
  shows "\<exists>wi. getWeekInfo e (Some [y1, y2, y3, y4, CHR ''-'', m1, m2, CHR ''-'', d1, d2]) = Inr wi
           \<and> wi_month wi = [y1, y2, y3, y4] @ ''-'' @ [m1, m2]"
proof -
  let ?s = "[y1, y2, y3, y4, CHR ''-'', m1, m2, CHR ''-'', d1, d2]"
  let ?y = "int (parseInt [y1, y2, y3, y4])" and ?m = "int (parseInt [m1, m2])"
  note p = parse_iso_date_Some [OF valid]
  have m: "0 \<le> ?m - 1" "?m - 1 \<le> 11" using p(3,4) by simp_all
  note lf = local_fields [OF tz m p(5,6)]
  have yr: "getFullYear (tza e) t = ?y" unfolding p(7) by (rule lf(1))
  have mo: "getMonth (tza e) t + 1 = ?m" unfolding p(7) using lf(2) by simp
  have dp: "Date_parse (parse_other e) ?s = Some t"
    by (simp add: Date_parse_def valid)
  from getWeekRange_ok [OF iso_time_bound [OF valid]]
  obtain r where r: "getWeekRange (tza e) t = Inr r" by blast
  have "getWeekInfo e (Some ?s)
        = Inr \<lparr> wi_date = toISOString_date t, wi_year = ?y,
                wi_month = show_int ?y @ ''-'' @ padStart0 2 (show_int ?m),
                wi_weekNumber = getWeekNumber (tza e) t,
                wi_weekHeader = ''Week '' @ show_number (getWeekNumber (tza e) t),
                wi_weekRange = r \<rparr>"
    unfolding getWeekInfo_def by (simp add: dp r yr mo Let_def)
  then show ?thesis
    by (simp add: show_year [OF p(1) y1] show_month [OF p(2)])
qed

lemma title_parse:
  assumes "list_all is_digit [y1, y2, y3, y4]" "list_all is_digit [m1, m2]"
  shows "parseWorklog ((''# '' @ [y1, y2, y3, y4] @ ''/'' @ [m1, m2] @ '' Contribution log'') @ [LF])
         = Inr [Header [''# '' @ [y1, y2, y3, y4] @ ''/'' @ [m1, m2] @ '' Contribution log'', []]]"
proof -
  let ?t = "''# '' @ [y1, y2, y3, y4] @ ''/'' @ [m1, m2] @ '' Contribution log''"
  from assms have d: "is_digit y1" "is_digit y2" "is_digit y3" "is_digit y4" "is_digit m1"
    "is_digit m2"
    by simp_all
  have lf: "LF \<notin> set ?t"
    using d [THEN digit_val_char(3)] by (simp add: LF_def)
  have sl: "split_lines (?t @ [LF]) = [?t, []]"
    using split_lines_append_line [OF lf, of "[]"] by simp
  have k: "\<not> is_week_header ?t" "\<not> is_day_header ?t" "\<not> is_week_header []" "\<not> is_day_header []"
    by (simp_all add: is_week_header_def is_day_header_def)
  have c: "currentDay init_pstate = None \<or> \<not> is_task_line x" for x
    by (simp add: init_pstate_def)
  let ?a = "init_pstate \<lparr> buffer := buffer init_pstate @ [?t] \<rparr>"
  have 1: "parse_line init_pstate ?t = Inr ?a"
    using k(1,2) c by (rule parse_line_plain)
  have "currentDay ?a = None \<or> \<not> is_task_line []" by (simp add: init_pstate_def)
  with k(3,4) have 2: "parse_line ?a [] = Inr (?a \<lparr> buffer := buffer ?a @ [[]] \<rparr>)"
    by (rule parse_line_plain)
  have "parse_lines init_pstate [?t, []] = Inr (?a \<lparr> buffer := buffer ?a @ [[]] \<rparr>)"
    using 1 2 by simp
  then show ?thesis
    unfolding parseWorklog_def sl
    by (simp add: finish_def flushBuffer_def init_pstate_def Let_def)
qed

text \<open>
  Claim C7, as amended. Let \<open>logWork\<close> be called with the required fields and a date in
  the form \<open>YYYY-MM-DD\<close> that names a day of the calendar, in a year from 1000 on, by a
  process whose local time is UTC or ahead of it by less than a day; let the directory of
  the logs be there or be made, and let the file \<open>YYYY-MM.md\<close> of the month not exist.
  Then the week information of the date is computed; the text \<open>logWork\<close> starts from is
  the title line \<open># YYYY/MM Contribution log\<close> and a line feed, with the four digits of
  the year and the two digits of the month that the date string holds; only the
  existence of the file is looked up, it is not read; that text parses to one header
  block (the title and the empty line after its line feed); and what \<open>logWork\<close> writes to
  the file next is the update of that text.
\<close>

theorem new_file_title:
  fixes e :: env and y1 y2 y3 y4 m1 m2 d1 d2 :: char
  defines "dateStr \<equiv> [y1, y2, y3, y4, CHR ''-'', m1, m2, CHR ''-'', d1, d2]"
    and "title \<equiv> ''# '' @ [y1, y2, y3, y4] @ ''/'' @ [m1, m2] @ '' Contribution log''"
    and "worklogFile \<equiv> worklogsPath e @ [''logs''] @ [[y1, y2, y3, y4, CHR ''-'', m1, m2] @ ''.md'']"
  assumes valid: "parse_iso_date dateStr = Some t"
    and y1: "y1 \<noteq> CHR ''0''"
    and tz: "0 \<le> tza e" "tza e < msPerDay"
    and opts: "o_date opts = Some dateStr" "o_trackingId opts = Some tid" "tid \<noteq> []"
      "o_summary opts = Some sm" "sm \<noteq> []" "o_workItems opts \<noteq> []"
    and dir: "ensure_logsDir fs (worklogsPath e @ [''logs'']) = (Inr fs1, io1)"
    and nofile: "\<not> existsSync fs1 worklogFile"
  shows "\<exists>wi newContent r fs2 io2.
           getWeekInfo e (Some dateStr) = Inr wi
         \<and> read_or_create fs1 worklogFile wi = (Inr (title @ [LF]), [ExistsSync worklogFile])
         \<and> parseWorklog (title @ [LF]) = Inr [Header [title, []]]
         \<and> update_text e (wi_weekNumber wi) (wi_weekHeader wi) (formatDateHeader e dateStr)
              tid sm (o_workItems opts) (title @ [LF]) = Inr newContent
         \<and> logWork e fs opts
             = (r, fs2, io1 @ [ExistsSync worklogFile, WriteFileSync worklogFile newContent] @ io2)"
proof -
  note p = parse_iso_date_Some [OF valid [unfolded dateStr_def]]
  from week_info_iso [OF valid [unfolded dateStr_def] y1 tz]
  obtain wi where wi: "getWeekInfo e (Some dateStr) = Inr wi"
    and mk: "wi_month wi = [y1, y2, y3, y4] @ ''-'' @ [m1, m2]"
    unfolding dateStr_def by blast
  have f: "worklogsPath e @ [''logs''] @ [wi_month wi @ ''.md''] = worklogFile"
    by (simp add: worklogFile_def mk)
  have "CHR ''-'' \<notin> set [y1, y2, y3, y4]"
    using p(1) digit_val_char(4) by auto
  from replace_first_hyphen [OF this, of "[m1, m2]"]
  have tt: "''# '' @ replace_first ''-'' ''/'' (wi_month wi) @ '' Contribution log'' @ [LF]
            = title @ [LF]"
    by (simp add: mk title_def)
  have rc: "read_or_create fs1 worklogFile wi = (Inr (title @ [LF]), [ExistsSync worklogFile])"
    using nofile tt by (simp add: read_or_create_def)
  have pw: "parseWorklog (title @ [LF]) = Inr [Header [title, []]]"
    unfolding title_def using p(1,2) by (rule title_parse)
  define newContent where "newContent = render (update_sections e (wi_weekNumber wi)
      (wi_weekHeader wi) (formatDateHeader e dateStr) tid sm (o_workItems opts) [Header [title, []]])"
  have ut: "update_text e (wi_weekNumber wi) (wi_weekHeader wi) (formatDateHeader e dateStr)
              tid sm (o_workItems opts) (title @ [LF]) = Inr newContent"
    by (simp add: update_text_def pw newContent_def)
  have ds: "dateStr_of e (o_date opts) = dateStr"
    by (simp add: dateStr_of_def falsy_def str_def opts(1) dateStr_def)
  have fl: "\<not> falsy (o_trackingId opts)" "\<not> falsy (o_summary opts)"
    "str (o_trackingId opts) = tid" "str (o_summary opts) = sm"
    using opts by (simp_all add: falsy_def str_def)
  have "\<exists>r fs2 io2. logWork e fs opts
          = (r, fs2, io1 @ [ExistsSync worklogFile, WriteFileSync worklogFile newContent] @ io2)"
  proof (cases "writeFileSync fs1 worklogFile newContent")
    case (Inl err)
    have "logWork e fs opts
          = (Inl err, fs1, io1 @ [ExistsSync worklogFile, WriteFileSync worklogFile newContent] @ [])"
      unfolding logWork_def
      by (simp add: fl opts(6) ds wi Let_def f [simplified] dir rc ut Inl)
    then show ?thesis by blast
  next
    case (Inr fs2)
    show ?thesis
    proof (cases "formatWorklog e fs2 worklogFile")
      case (Inl err)
      have "logWork e fs opts
            = (Inl err, fs2, io1 @ [ExistsSync worklogFile, WriteFileSync worklogFile newContent]
                 @ [FormatWorklog worklogFile])"
        unfolding logWork_def
        by (simp add: fl opts(6) ds wi Let_def f [simplified] dir rc ut Inr Inl)
      then show ?thesis by blast
    next
      case (Inr fs3)
      have "\<exists>r. logWork e fs opts
            = (r, fs3, io1 @ [ExistsSync worklogFile, WriteFileSync worklogFile newContent]
                 @ [FormatWorklog worklogFile])"
        unfolding logWork_def
        by (simp add: fl opts(6) ds wi Let_def f [simplified] dir rc ut
            \<open>writeFileSync fs1 worklogFile newContent = Inr fs2\<close> Inr)
      then show ?thesis by blast
    qed
  qed
  with wi rc pw ut show ?thesis by blast
qed

text \<open>
  A process one hour east of UTC logs to 1 February 2026; the directory of the logs
  exists and the file of the month does not.
\<close>

theorem new_file_title_witness:
  "parse_iso_date ''2026-02-01'' = Some 1769904000000
   \<and> CHR ''2'' \<noteq> CHR ''0''
   \<and> 0 \<le> tza \<lparr> tza = 3600000, now = 0, parse_other = (\<lambda>s. None), worklogsPath = [''w''], prettier = Some \<rparr>
   \<and> tza \<lparr> tza = 3600000, now = 0, parse_other = (\<lambda>s. None), worklogsPath = [''w''], prettier = Some \<rparr>
       < msPerDay
   \<and> ensure_logsDir \<lparr> files = Map.empty, dirs = {[], [''w''], [''w'', ''logs'']} \<rparr> [''w'', ''logs'']
       = (Inr \<lparr> files = Map.empty, dirs = {[], [''w''], [''w'', ''logs'']} \<rparr>,
          [ExistsSync [''w'', ''logs'']])
   \<and> \<not> existsSync \<lparr> files = Map.empty, dirs = {[], [''w''], [''w'', ''logs'']} \<rparr>
         [''w'', ''logs'', ''2026-02.md'']
   \<and> (\<exists>wi newContent r fs2 io2.
          getWeekInfo
            \<lparr> tza = 3600000, now = 0, parse_other = (\<lambda>s. None), worklogsPath = [''w''], prettier = Some \<rparr>
            (Some ''2026-02-01'') = Inr wi
        \<and> read_or_create \<lparr> files = Map.empty, dirs = {[], [''w''], [''w'', ''logs'']} \<rparr>
              [''w'', ''logs'', ''2026-02.md''] wi
            = (Inr ''# 2026/02 Contribution log\<newline>'', [ExistsSync [''w'', ''logs'', ''2026-02.md'']])
        \<and> parseWorklog ''# 2026/02 Contribution log\<newline>''
            = Inr [Header [''# 2026/02 Contribution log'', []]]
        \<and> update_text
              \<lparr> tza = 3600000, now = 0, parse_other = (\<lambda>s. None), worklogsPath = [''w''], prettier = Some \<rparr>
              (wi_weekNumber wi) (wi_weekHeader wi)
              (formatDateHeader
                \<lparr> tza = 3600000, now = 0, parse_other = (\<lambda>s. None), worklogsPath = [''w''], prettier = Some \<rparr>
                ''2026-02-01'')
              ''PROJ-1'' ''S'' [''a''] ''# 2026/02 Contribution log\<newline>''
            = Inr newContent
        \<and> logWork
              \<lparr> tza = 3600000, now = 0, parse_other = (\<lambda>s. None), worklogsPath = [''w''], prettier = Some \<rparr>
              \<lparr> files = Map.empty, dirs = {[], [''w''], [''w'', ''logs'']} \<rparr>
              \<lparr> o_date = Some ''2026-02-01'', o_trackingId = Some ''PROJ-1'',
                o_summary = Some ''S'', o_workItems = [''a''] \<rparr>
            = (r, fs2,
               [ExistsSync [''w'', ''logs'']]
               @ [ExistsSync [''w'', ''logs'', ''2026-02.md''],
                  WriteFileSync [''w'', ''logs'', ''2026-02.md''] newContent] @ io2))
   \<and> snd (snd (logWork
              \<lparr> tza = 3600000, now = 0, parse_other = (\<lambda>s. None), worklogsPath = [''w''], prettier = Some \<rparr>
              \<lparr> files = Map.empty, dirs = {[], [''w''], [''w'', ''logs'']} \<rparr>
              \<lparr> o_date = Some ''2026-02-01'', o_trackingId = Some ''PROJ-1'',
                o_summary = Some ''S'', o_workItems = [''a''] \<rparr>))
       = [ExistsSync [''w'', ''logs''],
          ExistsSync [''w'', ''logs'', ''2026-02.md''],
          WriteFileSync [''w'', ''logs'', ''2026-02.md'']
            ''# 2026/02 Contribution log\<newline>\<newline>\<newline>## Week 5\<newline>\<newline>Last week:\<newline>\<newline>This week:\<newline>\<newline>\<newline>### 2026/02/01\<newline>\<newline>- PROJ-1: S\<newline>  - a\<newline>'',
          FormatWorklog [''w'', ''logs'', ''2026-02.md'']]"
proof -
  let ?e = "\<lparr> tza = 3600000, now = 0, parse_other = (\<lambda>s. None), worklogsPath = [''w''], prettier = Some \<rparr>"
  let ?fs = "\<lparr> files = Map.empty, dirs = {[], [''w''], [''w'', ''logs'']} \<rparr>"
  let ?opts = "\<lparr> o_date = Some ''2026-02-01'', o_trackingId = Some ''PROJ-1'',
                o_summary = Some ''S'', o_workItems = [''a''] \<rparr>"
  have h1: "parse_iso_date ''2026-02-01'' = Some 1769904000000" by code_simp
  have h2: "CHR ''2'' \<noteq> CHR ''0''" by simp
  have h3: "0 \<le> tza ?e" "tza ?e < msPerDay" by (simp_all add: msPerDay_def)
  have h4: "o_date ?opts = Some ''2026-02-01''" "o_trackingId ?opts = Some ''PROJ-1''"
    "''PROJ-1'' \<noteq> []" "o_summary ?opts = Some ''S''" "''S'' \<noteq> []" "o_workItems ?opts \<noteq> []"
    by simp_all
  have h5: "ensure_logsDir ?fs (worklogsPath ?e @ [''logs'']) = (Inr ?fs, [ExistsSync [''w'', ''logs'']])"
    by (simp add: ensure_logsDir_def existsSync_def)
  have h6: "\<not> existsSync ?fs (worklogsPath ?e @ [''logs''] @ [''2026-02'' @ ''.md''])"
    by (simp add: existsSync_def)
  have io: "snd (snd (logWork ?e ?fs ?opts))
       = [ExistsSync [''w'', ''logs''],
          ExistsSync [''w'', ''logs'', ''2026-02.md''],
          WriteFileSync [''w'', ''logs'', ''2026-02.md'']
            ''# 2026/02 Contribution log\<newline>\<newline>\<newline>## Week 5\<newline>\<newline>Last week:\<newline>\<newline>This week:\<newline>\<newline>\<newline>### 2026/02/01\<newline>\<newline>- PROJ-1: S\<newline>  - a\<newline>'',
          FormatWorklog [''w'', ''logs'', ''2026-02.md'']]"
    by code_simp
  note t = new_file_title [where e = ?e and fs = ?fs and opts = ?opts and ?fs1.0 = ?fs
      and ?io1.0 = "[ExistsSync [''w'', ''logs'']]" and tid = "''PROJ-1''" and sm = "''S''"
      and ?y1.0 = "CHR ''2''" and ?y2.0 = "CHR ''0''" and ?y3.0 = "CHR ''2''" and ?y4.0 = "CHR ''6''"
      and ?m1.0 = "CHR ''0''" and ?m2.0 = "CHR ''2''" and ?d1.0 = "CHR ''0''" and ?d2.0 = "CHR ''1''"
      and t = 1769904000000, OF h1 h2 h3 h4 h5 h6]
  have h5': "ensure_logsDir ?fs [''w'', ''logs''] = (Inr ?fs, [ExistsSync [''w'', ''logs'']])"
    using h5 by simp
  have h6': "\<not> existsSync ?fs [''w'', ''logs'', ''2026-02.md'']"
    using h6 by simp
  from t have "\<exists>wi newContent r fs2 io2.
          getWeekInfo ?e (Some ''2026-02-01'') = Inr wi
        \<and> read_or_create ?fs [''w'', ''logs'', ''2026-02.md''] wi
            = (Inr ''# 2026/02 Contribution log\<newline>'', [ExistsSync [''w'', ''logs'', ''2026-02.md'']])
        \<and> parseWorklog ''# 2026/02 Contribution log\<newline>''
            = Inr [Header [''# 2026/02 Contribution log'', []]]
        \<and> update_text ?e (wi_weekNumber wi) (wi_weekHeader wi)
              (formatDateHeader ?e ''2026-02-01'')
              ''PROJ-1'' ''S'' [''a''] ''# 2026/02 Contribution log\<newline>''
            = Inr newContent
        \<and> logWork ?e ?fs ?opts
            = (r, fs2,
               [ExistsSync [''w'', ''logs'']]
               @ [ExistsSync [''w'', ''logs'', ''2026-02.md''],
                  WriteFileSync [''w'', ''logs'', ''2026-02.md''] newContent] @ io2)"
    by (simp add: LF_def)
  with h1 h2 h3 h5' h6' io show ?thesis
    by (intro conjI)
qed

text \<open>
  Claim C7 as stated fails: for 28 January 2026 the file starts from, and is written
  with, the title \<open># 2026/01 Contribution log\<close>, not \<open># January 2026 Contribution log\<close>.
\<close>

theorem new_file_title_counterexample:
  "read_or_create \<lparr> files = Map.empty, dirs = {} \<rparr> [''w'', ''logs'', ''2026-01.md'']
       \<lparr> wi_date = ''2026-01-28'', wi_year = 2026, wi_month = ''2026-01'',
         wi_weekNumber = Some 5, wi_weekHeader = ''Week 5'',
         wi_weekRange = (''2026-01-26'', ''2026-02-01'') \<rparr>
     = (Inr (''# 2026/01 Contribution log'' @ [LF]), [ExistsSync [''w'', ''logs'', ''2026-01.md'']])
   \<and> snd (snd (logWork
              \<lparr> tza = 0, now = 0, parse_other = (\<lambda>s. None), worklogsPath = [''w''], prettier = Some \<rparr>
              \<lparr> files = Map.empty, dirs = {[], [''w''], [''w'', ''logs'']} \<rparr>
              \<lparr> o_date = Some ''2026-01-28'', o_trackingId = Some ''PROJ-1'',
                o_summary = Some ''S'', o_workItems = [''a''] \<rparr>))
       = [ExistsSync [''w'', ''logs''],
          ExistsSync [''w'', ''logs'', ''2026-01.md''],
          WriteFileSync [''w'', ''logs'', ''2026-01.md'']
            ''# 2026/01 Contribution log\<newline>\<newline>\<newline>## Week 5\<newline>\<newline>Last week:\<newline>\<newline>This week:\<newline>\<newline>\<newline>### 2026/01/28\<newline>\<newline>- PROJ-1: S\<newline>  - a\<newline>'',
          FormatWorklog [''w'', ''logs'', ''2026-01.md'']]
   \<and> spec_title 2026 0 = ''# January 2026 Contribution log''
   \<and> ''# 2026/01 Contribution log'' \<noteq> spec_title 2026 0"
  by code_simp

text \<open>
  Left out of the amended claim: the date is read as UTC midnight and its year and month
  are taken in local time, so that west of UTC the file and the title are those of the
  day before. Five hours west, 1 February 2026 is logged to the file of January.
\<close>

lemma new_file_west_of_utc:
  "snd (snd (logWork
              \<lparr> tza = - 18000000, now = 0, parse_other = (\<lambda>s. None), worklogsPath = [''w''], prettier = Some \<rparr>
              \<lparr> files = Map.empty, dirs = {[], [''w''], [''w'', ''logs'']} \<rparr>
              \<lparr> o_date = Some ''2026-02-01'', o_trackingId = Some ''PROJ-1'',
                o_summary = Some ''S'', o_workItems = [''a''] \<rparr>))
       = [ExistsSync [''w'', ''logs''],
          ExistsSync [''w'', ''logs'', ''2026-01.md''],
          WriteFileSync [''w'', ''logs'', ''2026-01.md'']
            ''# 2026/01 Contribution log\<newline>\<newline>\<newline>## Week 5\<newline>\<newline>Last week:\<newline>\<newline>This week:\<newline>\<newline>\<newline>### 2026/01/31\<newline>\<newline>- PROJ-1: S\<newline>  - a\<newline>'',
          FormatWorklog [''w'', ''logs'', ''2026-01.md'']]"
  by code_simp

section \<open>The work lines of a task\<close>







end
